theory Spec2Isabelle
  imports Main "HOL-Library.Extended_Nat" "HOL-Library.AList"
begin

section \<open>The xRPC WebSocket subscription client (src/src/websocket.ts)\<close>

text \<open>
  The class \<^verbatim>\<open>XRpcWebSocketClient\<close> is embedded as a record of its fields together with
  the parts of the JavaScript runtime its behaviour depends on: the transport objects it
  has created (with their \<^verbatim>\<open>readyState\<close>), the armed timers, the promises that are not
  settled yet, each with the code waiting for it, and the queue of promise reactions
  (microtasks). Every closure of the source is one constructor of a datatype
  (\<open>timer\<close>, \<open>pending\<close>, \<open>cont\<close>) and one equation of the function that runs it.
  What the client does to the outside world is appended to \<open>effects\<close>; what
  \<^verbatim>\<open>console.log\<close> prints is appended to \<open>console\<close>.

  Assumptions of the embedding: user functions (listeners and subscription callbacks)
  return or throw but do not call back into the client while they run; inbound data is
  taken after \<^verbatim>\<open>JSON.parse\<close>; numbers are integers; an object or array value is a
  reference \<open>Obj r\<close>, so that equality of values is the SameValueZero comparison that
  \<^verbatim>\<open>Map\<close> uses; \<^verbatim>\<open>ws.send\<close> and the transport's constructor do not throw.
\<close>

subsection \<open>Values\<close>

datatype jsval = Undefined | Null | Bool bool | Num int | Str string | Obj nat

fun truthy :: "jsval \<Rightarrow> bool" where
  "truthy Undefined = False"
| "truthy Null = False"
| "truthy (Bool b) = b"
| "truthy (Num n) = (n \<noteq> 0)"
| "truthy (Str s) = (s \<noteq> [])"
| "truthy (Obj r) = True"

text \<open>The JavaScript expression \<^verbatim>\<open>a || b\<close>.\<close>

definition or_else :: "jsval \<Rightarrow> jsval \<Rightarrow> jsval" where
  "or_else a b = (if truthy a then a else b)"

datatype SubscriptionType = newHeads | newPendingTransactions | logs

fun type_name :: "SubscriptionType \<Rightarrow> string" where
  "type_name newHeads = ''newHeads''"
| "type_name newPendingTransactions = ''newPendingTransactions''"
| "type_name logs = ''logs''"

text \<open>
  A user function: \<open>Fn n t\<close> is the function object \<open>n\<close>; it throws when called iff
  \<open>t\<close> holds, and what it throws is \<open>Thrown n\<close>.
\<close>

datatype fn = Fn (fn_id: nat) (fn_throws: bool)

datatype error =
    Error string
  | NotFound jsval
  | XRpcError jsval jsval jsval
  | SyntaxError
  | TypeError
  | Thrown nat

datatype outcome = Fulfil jsval | Reject error

datatype ready_state = CONNECTING | OPEN | CLOSING | CLOSED

datatype event_kind = EvOpen | EvClose | EvError | EvReconnect

datatype lifecycle = OnOpen | OnClose jsval string | OnError error | OnReconnect nat

fun kind_of :: "lifecycle \<Rightarrow> event_kind" where
  "kind_of OnOpen = EvOpen"
| "kind_of (OnClose code reason) = EvClose"
| "kind_of (OnError e) = EvError"
| "kind_of (OnReconnect n) = EvReconnect"

datatype call_args = Event lifecycle | Data jsval

datatype effect =
    Emitted lifecycle
  | Called fn call_args
  | Resolved nat jsval
  | Rejected nat error
  | Constructed nat string
  | Send nat string "jsval list" jsval
  | Close nat "jsval list"

subsection \<open>Inbound messages\<close>

text \<open>
  What \<^verbatim>\<open>_handleMessage\<close> reads of a parsed message: \<^verbatim>\<open>message.method\<close>,
  \<^verbatim>\<open>message.params?.subscription\<close>, \<^verbatim>\<open>message.params?.result\<close>, \<^verbatim>\<open>message.id\<close>,
  \<^verbatim>\<open>message.result\<close> and \<^verbatim>\<open>message.error\<close>. A property that is absent is
  \<open>Undefined\<close>; \<open>msg_error\<close> is \<open>None\<close> when \<^verbatim>\<open>message.error\<close> is falsy.
\<close>

record rpc_error =
  err_code :: jsval
  err_message :: jsval
  err_data :: jsval

record msg =
  msg_method :: jsval
  params_subscription :: jsval
  params_result :: jsval
  msg_id :: jsval
  msg_result :: jsval
  msg_error :: "rpc_error option"

text \<open>
  The data of a transport message: text that \<^verbatim>\<open>JSON.parse\<close> rejects, the text
  \<^verbatim>\<open>null\<close> (every property access on it throws), or any other value.
\<close>

datatype inbound = Unparseable | ParsedNull | Parsed msg

datatype close_reason = ReasonString string | ReasonBuffer string | NoReason

subsection \<open>The client and its runtime\<close>

record options =
  network :: string
  apiKey :: string
  timeout :: nat
  debug :: bool
  autoReconnect :: bool
  reconnectDelay :: nat
  maxReconnectAttempts :: enat

record Subscription =
  sub_id :: jsval
  sub_type :: SubscriptionType
  params :: "jsval list"
  callback :: fn

text \<open>
  The code that waits for a promise. \<open>Caller n\<close> is application code (call \<open>n\<close> of the
  public interface); the others are the places where the client itself awaits.
\<close>

datatype cont =
    Caller nat
  | SubscribeAwaitConnect SubscriptionType "jsval list" fn cont
  | ReconnectAwaitConnect
  | ReplayAwaitSubscribe jsval nat
  | AllSettledItem nat
  | DisconnectAwait nat

datatype pending =
    PendingSubscribe SubscriptionType "jsval list" fn nat nat
  | PendingUnsubscribe jsval nat nat

datatype timer =
    ConnectionTimeout nat
  | CheckInterval nat
  | PollTimeout nat nat
  | SubscribeTimeout jsval nat
  | UnsubscribeTimeout jsval nat
  | ReconnectTimeout

record socket =
  readyState :: ready_state
  connectPromise :: nat
  connectionTimeout :: nat

record client =
  options :: options
  ws :: "nat option"
  subscriptions :: "(nat \<times> Subscription) list"
  subscriptionSlots :: nat
  pendingRequests :: "(jsval \<times> pending) list"
  requestIdCounter :: nat
  reconnectAttempts :: nat
  reconnectTimeoutId :: "nat option"
  isManualClose :: bool
  eventListeners :: "event_kind \<Rightarrow> fn list"
  websocketImpl :: bool
  dateNow :: "nat \<Rightarrow> nat"
  mathRandom :: "nat \<Rightarrow> string"
  sockets :: "socket list"
  timers :: "(nat \<times> nat \<times> timer) list"
  timerCounter :: nat
  promises :: "(nat \<times> cont) list"
  promiseCounter :: nat
  allSettled :: "(nat \<times> nat) list"
  microtasks :: "(cont \<times> outcome) list"
  effects :: "effect list"
  console :: "string list"


text \<open>
  What the application passes to the constructor; an absent optional property is \<open>None\<close>.
  The runtime record is the part of the JavaScript environment the client reads:
  whether a WebSocket implementation can be found, and the values that the \<open>n\<close>-th call
  of \<^verbatim>\<open>_generateRequestId\<close> gets from \<^verbatim>\<open>Date.now()\<close> and from
  \<^verbatim>\<open>Math.random().toString(36).substring(7)\<close>.
\<close>

record SubscriptionOptions =
  opt_network :: string
  opt_apiKey :: string
  opt_timeout :: "nat option"
  opt_debug :: "bool option"
  opt_autoReconnect :: "bool option"
  opt_reconnectDelay :: "nat option"
  opt_maxReconnectAttempts :: "enat option"

record runtime =
  rt_websocketImpl :: bool
  rt_dateNow :: "nat \<Rightarrow> nat"
  rt_mathRandom :: "nat \<Rightarrow> string"

definition default_to :: "'a \<Rightarrow> 'a option \<Rightarrow> 'a" where
  "default_to d v = (case v of None \<Rightarrow> d | Some x \<Rightarrow> x)"

definition constructor :: "SubscriptionOptions \<Rightarrow> runtime \<Rightarrow> error + client" where
  "constructor opts rt =
     (if opt_apiKey opts = [] then Inl (Error ''API key is required'')
      else if opt_network opts = [] then Inl (Error ''Network is required'')
      else Inr \<lparr>
        options = \<lparr>
          network = opt_network opts,
          apiKey = opt_apiKey opts,
          timeout = default_to 10000 (opt_timeout opts),
          debug = default_to False (opt_debug opts),
          autoReconnect = default_to True (opt_autoReconnect opts),
          reconnectDelay = default_to 5000 (opt_reconnectDelay opts),
          maxReconnectAttempts = default_to \<infinity> (opt_maxReconnectAttempts opts) \<rparr>,
        ws = None,
        subscriptions = [],
        subscriptionSlots = 0,
        pendingRequests = [],
        requestIdCounter = 0,
        reconnectAttempts = 0,
        reconnectTimeoutId = None,
        isManualClose = False,
        eventListeners = (\<lambda>ev. []),
        websocketImpl = rt_websocketImpl rt,
        dateNow = rt_dateNow rt,
        mathRandom = rt_mathRandom rt,
        sockets = [],
        timers = [],
        timerCounter = 0,
        promises = [],
        promiseCounter = 0,
        allSettled = [],
        microtasks = [],
        effects = [],
        console = [] \<rparr>)"

subsection \<open>Runtime primitives\<close>

text \<open>\<^verbatim>\<open>_log\<close>: prints only when the \<^verbatim>\<open>debug\<close> option is set.\<close>

definition log :: "string \<Rightarrow> client \<Rightarrow> client" where
  "log text c = (if debug (options c) then c\<lparr>console := console c @ [text]\<rparr> else c)"

text \<open>
  Timers. An armed timer is \<open>(id, delay, closure)\<close>; ids start at 1. \<^verbatim>\<open>setInterval\<close>
  arms a timer like \<^verbatim>\<open>setTimeout\<close> does; the difference is in \<open>step\<close>, which disarms a
  timeout when it fires and leaves an interval armed.
\<close>

definition setTimeout :: "nat \<Rightarrow> timer \<Rightarrow> client \<Rightarrow> nat \<times> client" where
  "setTimeout delay a c =
     (let t = Suc (timerCounter c)
      in (t, c\<lparr>timers := timers c @ [(t, delay, a)], timerCounter := t\<rparr>))"

definition setInterval :: "nat \<Rightarrow> timer \<Rightarrow> client \<Rightarrow> nat \<times> client" where
  "setInterval delay a c = setTimeout delay a c"

definition clearTimeout :: "nat \<Rightarrow> client \<Rightarrow> client" where
  "clearTimeout t c = c\<lparr>timers := AList.delete t (timers c)\<rparr>"

text \<open>
  Promises. \<open>newPromise k\<close> creates a promise that \<open>k\<close> waits for. Settling a promise
  that is already settled does nothing. A settled promise hands its outcome to
  application code at once (the effect \<open>Resolved\<close> or \<open>Rejected\<close>) and queues a
  microtask for code of the client that awaits it.
\<close>

definition newPromise :: "cont \<Rightarrow> client \<Rightarrow> nat \<times> client" where
  "newPromise k c =
     (let p = promiseCounter c
      in (p, c\<lparr>promises := promises c @ [(p, k)], promiseCounter := Suc p\<rparr>))"

definition deliver :: "cont \<Rightarrow> outcome \<Rightarrow> client \<Rightarrow> client" where
  "deliver k out c =
     (case k of
        Caller n \<Rightarrow>
          c\<lparr>effects := effects c @
            [case out of Fulfil v \<Rightarrow> Resolved n v | Reject e \<Rightarrow> Rejected n e]\<rparr>
      | _ \<Rightarrow> c\<lparr>microtasks := microtasks c @ [(k, out)]\<rparr>)"

definition settle :: "nat \<Rightarrow> outcome \<Rightarrow> client \<Rightarrow> client" where
  "settle p out c =
     (case map_of (promises c) p of
        None \<Rightarrow> c
      | Some k \<Rightarrow> deliver k out (c\<lparr>promises := AList.delete p (promises c)\<rparr>))"

text \<open>The transport object \<^verbatim>\<open>this.ws\<close> and its \<^verbatim>\<open>readyState\<close>.\<close>

definition ws_state :: "client \<Rightarrow> ready_state option" where
  "ws_state c =
     (case ws c of
        None \<Rightarrow> None
      | Some s \<Rightarrow> if s < length (sockets c) then Some (readyState (sockets c ! s)) else None)"

definition set_readyState :: "nat \<Rightarrow> ready_state \<Rightarrow> client \<Rightarrow> client" where
  "set_readyState s r c = c\<lparr>sockets := (sockets c)[s := (sockets c ! s)\<lparr>readyState := r\<rparr>]\<rparr>"

text \<open>\<^verbatim>\<open>ws.close(...)\<close>: a transport that is connecting or open starts closing.\<close>

definition ws_close :: "nat \<Rightarrow> jsval list \<Rightarrow> client \<Rightarrow> client" where
  "ws_close s args c =
     (let c1 = c\<lparr>effects := effects c @ [Close s args]\<rparr>
      in if s < length (sockets c) \<and> readyState (sockets c ! s) \<in> {CONNECTING, OPEN}
         then set_readyState s CLOSING c1 else c1)"

definition getState :: "client \<Rightarrow> string" where
  "getState c =
     (case ws_state c of
        None \<Rightarrow> ''closed''
      | Some CONNECTING \<Rightarrow> ''connecting''
      | Some OPEN \<Rightarrow> ''open''
      | Some CLOSING \<Rightarrow> ''closing''
      | Some CLOSED \<Rightarrow> ''closed'')"

definition isConnected :: "client \<Rightarrow> bool" where
  "isConnected c = (ws_state c = Some OPEN)"

text \<open>
  The \<^verbatim>\<open>subscriptions\<close> map. A JavaScript \<^verbatim>\<open>Map\<close> keeps its entries in insertion
  order, \<^verbatim>\<open>set\<close> on a present key replaces the value in place and on a new key appends,
  and an iterator that is running sees the entries appended after it started. Each
  entry therefore carries the slot number it was appended at, and an iterator is the
  number of the first slot it has not visited. The key of an entry is its \<open>sub_id\<close>.
\<close>

definition subs_has :: "jsval \<Rightarrow> (nat \<times> Subscription) list \<Rightarrow> bool" where
  "subs_has k m = (\<exists>e \<in> set m. sub_id (snd e) = k)"

definition subs_get :: "jsval \<Rightarrow> (nat \<times> Subscription) list \<Rightarrow> Subscription option" where
  "subs_get k m = map_option snd (find (\<lambda>e. sub_id (snd e) = k) m)"

definition subs_delete :: "jsval \<Rightarrow> (nat \<times> Subscription) list \<Rightarrow> (nat \<times> Subscription) list" where
  "subs_delete k m = filter (\<lambda>e. sub_id (snd e) \<noteq> k) m"

definition subs_set :: "Subscription \<Rightarrow> client \<Rightarrow> client" where
  "subs_set s c =
     (if subs_has (sub_id s) (subscriptions c)
      then c\<lparr>subscriptions :=
               map (\<lambda>e. if sub_id (snd e) = sub_id s then (fst e, s) else e) (subscriptions c)\<rparr>
      else c\<lparr>subscriptions := subscriptions c @ [(subscriptionSlots c, s)],
             subscriptionSlots := Suc (subscriptionSlots c)\<rparr>)"

definition subs_next :: "nat \<Rightarrow> (nat \<times> Subscription) list \<Rightarrow> (nat \<times> Subscription) option" where
  "subs_next idx m = find (\<lambda>e. idx \<le> fst e) m"

definition getSubscriptions :: "client \<Rightarrow> Subscription list" where
  "getSubscriptions c = map snd (subscriptions c)"

subsection \<open>The event bus\<close>

definition on :: "event_kind \<Rightarrow> fn \<Rightarrow> client \<Rightarrow> client" where
  "on ev listener c = c\<lparr>eventListeners := (eventListeners c)(ev := eventListeners c ev @ [listener])\<rparr>"

definition off :: "event_kind \<Rightarrow> fn \<Rightarrow> client \<Rightarrow> client" where
  "off ev listener c = c\<lparr>eventListeners := (eventListeners c)(ev := remove1 listener (eventListeners c ev))\<rparr>"

text \<open>
  \<^verbatim>\<open>_emit\<close>: the \<^verbatim>\<open>forEach\<close> with its \<^verbatim>\<open>try\<close>/\<^verbatim>\<open>catch\<close> around each call. The
  effect \<open>Emitted\<close> records the call of \<^verbatim>\<open>_emit\<close> itself, whether or not a listener
  is registered.
\<close>

fun call_listeners :: "fn list \<Rightarrow> lifecycle \<Rightarrow> client \<Rightarrow> client" where
  "call_listeners [] ev c = c"
| "call_listeners (listener # rest) ev c =
     call_listeners rest ev
       (let c1 = c\<lparr>effects := effects c @ [Called listener (Event ev)]\<rparr>
        in if fn_throws listener then log ''Error in event listener:'' c1 else c1)"

definition emit :: "lifecycle \<Rightarrow> client \<Rightarrow> client" where
  "emit ev c =
     call_listeners (eventListeners c (kind_of ev)) ev (c\<lparr>effects := effects c @ [Emitted ev]\<rparr>)"

subsection \<open>Requests\<close>

fun digits :: "nat \<Rightarrow> string" where
  "digits n =
     (if n < 10 then [''0123456789'' ! n]
      else digits (n div 10) @ [''0123456789'' ! (n mod 10)])"

declare digits.simps [simp del]

definition generateRequestId :: "client \<Rightarrow> jsval \<times> client" where
  "generateRequestId c =
     (let n = Suc (requestIdCounter c)
      in (Str (digits (dateNow c n) @ ''-'' @ digits n @ ''-'' @ mathRandom c n),
          c\<lparr>requestIdCounter := n\<rparr>))"

definition buildWebSocketUrl :: "client \<Rightarrow> string" where
  "buildWebSocketUrl c =
     (let n = network (options c);
          networkName = (if 4 \<le> length n \<and> drop (length n - 4) n = ''-wss''
                         then take (length n - 4) n else n)
      in ''wss://'' @ networkName @ ''.xrpc.pro?apiKey='' @ apiKey (options c))"

text \<open>\<^verbatim>\<open>_sendRequest\<close> throws when the transport is not open.\<close>

definition sendRequest :: "string \<Rightarrow> jsval list \<Rightarrow> jsval \<Rightarrow> client \<Rightarrow> error + client" where
  "sendRequest method ps rid c =
     (case ws c of
        None \<Rightarrow> Inl (Error ''WebSocket is not connected'')
      | Some s \<Rightarrow>
          if ws_state c \<noteq> Some OPEN then Inl (Error ''WebSocket is not connected'')
          else Inr ((log ''Sending request:'' c)
                 \<lparr>effects := effects (log ''Sending request:'' c) @ [Send s method ps rid]\<rparr>))"

text \<open>The error object built from \<^verbatim>\<open>response.error\<close>.\<close>

definition xrpc_error :: "rpc_error \<Rightarrow> string \<Rightarrow> error" where
  "xrpc_error e dflt =
     XRpcError (or_else (err_code e) (Num (- 32603))) (or_else (err_message e) (Str dflt)) (err_data e)"

text \<open>
  An entry of \<^verbatim>\<open>pendingRequests\<close>: the two closures \<^verbatim>\<open>resolve\<close> and \<^verbatim>\<open>reject\<close> and
  the \<^verbatim>\<open>timeoutId\<close>, as \<^verbatim>\<open>subscribe\<close> builds them (\<open>PendingSubscribe\<close> with the type,
  the parameters, the callback, the promise and the timer) and as \<^verbatim>\<open>unsubscribe\<close> does
  (\<open>PendingUnsubscribe\<close> with the subscription id, the promise and the timer).
\<close>

fun timeoutId :: "pending \<Rightarrow> nat" where
  "timeoutId (PendingSubscribe ty ps cb p t) = t"
| "timeoutId (PendingUnsubscribe subscriptionId p t) = t"

fun pending_resolve :: "pending \<Rightarrow> msg \<Rightarrow> client \<Rightarrow> client" where
  "pending_resolve (PendingSubscribe ty ps cb p t) response c =
     (let c1 = clearTimeout t c
      in case msg_error response of
           Some e \<Rightarrow> settle p (Reject (xrpc_error e ''Subscription failed'')) c1
         | None \<Rightarrow>
             let subscriptionId = msg_result response
             in if \<not> truthy subscriptionId
                then settle p (Reject (Error ''Invalid subscription ID received'')) c1
                else settle p (Fulfil subscriptionId)
                       (log ''Subscribed''
                          (subs_set \<lparr>sub_id = subscriptionId, sub_type = ty,
                                     params = ps, callback = cb\<rparr> c1)))"
| "pending_resolve (PendingUnsubscribe subscriptionId p t) response c =
     (let c1 = clearTimeout t c
      in case msg_error response of
           Some e \<Rightarrow> settle p (Reject (xrpc_error e ''Unsubscribe failed'')) c1
         | None \<Rightarrow>
             let success = (msg_result response = Bool True)
             in settle p (Fulfil (Bool success))
                  (if success
                   then log ''Unsubscribed''
                          (c1\<lparr>subscriptions := subs_delete subscriptionId (subscriptions c1)\<rparr>)
                   else c1))"

fun pending_reject :: "pending \<Rightarrow> error \<Rightarrow> client \<Rightarrow> client" where
  "pending_reject (PendingSubscribe ty ps cb p t) e c = settle p (Reject e) (clearTimeout t c)"
| "pending_reject (PendingUnsubscribe subscriptionId p t) e c = settle p (Reject e) (clearTimeout t c)"

subsection \<open>connect\<close>

text \<open>
  \<open>connect k\<close> is a call of \<^verbatim>\<open>connect()\<close> whose promise \<open>k\<close> waits for. The handlers
  attached to the new transport are \<open>handleOpen\<close>, \<open>handleError\<close> and \<open>handleClose\<close>
  below; they find the promise and the connection timer of their call in the socket.
\<close>

definition connect :: "cont \<Rightarrow> client \<Rightarrow> client" where
  "connect k c =
     (if ws_state c = Some OPEN then deliver k (Fulfil Undefined) (log ''Already connected'' c)
      else if ws_state c = Some CONNECTING then
        (let c1 = log ''Connection already in progress'' c;
             (p, c2) = newPromise k c1;
             (checkInterval, c3) = setInterval 100 (CheckInterval p) c2;
             (t, c4) = setTimeout (timeout (options c3)) (PollTimeout checkInterval p) c3
         in c4)
      else
        (let (p, c1) = newPromise k c;
             wsUrl = buildWebSocketUrl c1;
             c2 = log ''Connecting'' c1
         in if \<not> websocketImpl c2
            then settle p (Reject (Error ''WebSocket implementation not found'')) c2
            else
              (let s = length (sockets c2);
                   c3 = c2\<lparr>effects := effects c2 @ [Constructed s wsUrl]\<rparr>;
                   (t, c4) = setTimeout (timeout (options c3)) (ConnectionTimeout p) c3
               in c4\<lparr>sockets := sockets c4 @
                        [\<lparr>readyState = CONNECTING, connectPromise = p, connectionTimeout = t\<rparr>],
                      ws := Some s\<rparr>)))"

subsection \<open>subscribe and unsubscribe\<close>

text \<open>The part of \<^verbatim>\<open>subscribe\<close> after the connection is known to be open.\<close>

definition subscribe_request ::
    "cont \<Rightarrow> SubscriptionType \<Rightarrow> jsval list \<Rightarrow> fn \<Rightarrow> client \<Rightarrow> client" where
  "subscribe_request k ty ps cb c =
     (let (requestId, c1) = generateRequestId c;
          (p, c2) = newPromise k c1;
          (t, c3) = setTimeout (timeout (options c2)) (SubscribeTimeout requestId p) c2;
          c4 = c3\<lparr>pendingRequests :=
                    AList.update requestId (PendingSubscribe ty ps cb p t) (pendingRequests c3)\<rparr>
      in case sendRequest ''eth_subscribe'' (Str (type_name ty) # ps) requestId c4 of
           Inl e \<Rightarrow> settle p (Reject e) c4
         | Inr c5 \<Rightarrow> c5)"

definition subscribe ::
    "cont \<Rightarrow> SubscriptionType \<Rightarrow> jsval list \<Rightarrow> fn \<Rightarrow> client \<Rightarrow> client" where
  "subscribe k ty ps cb c =
     (if ws_state c \<noteq> Some OPEN then connect (SubscribeAwaitConnect ty ps cb k) c
      else subscribe_request k ty ps cb c)"

definition unsubscribe :: "cont \<Rightarrow> jsval \<Rightarrow> client \<Rightarrow> client" where
  "unsubscribe k subscriptionId c =
     (if \<not> subs_has subscriptionId (subscriptions c)
      then deliver k (Reject (NotFound subscriptionId)) c
      else if ws_state c \<noteq> Some OPEN
      then deliver k (Fulfil (Bool False))
             (c\<lparr>subscriptions := subs_delete subscriptionId (subscriptions c)\<rparr>)
      else
        (let (requestId, c1) = generateRequestId c;
             (p, c2) = newPromise k c1;
             (t, c3) = setTimeout (timeout (options c2)) (UnsubscribeTimeout requestId p) c2;
             c4 = c3\<lparr>pendingRequests :=
                       AList.update requestId (PendingUnsubscribe subscriptionId p t)
                         (pendingRequests c3)\<rparr>
         in case sendRequest ''eth_unsubscribe'' [subscriptionId] requestId c4 of
              Inl e \<Rightarrow> settle p (Reject e) c4
            | Inr c5 \<Rightarrow> c5))"

subsection \<open>disconnect\<close>

text \<open>
  \<^verbatim>\<open>disconnect\<close> up to its \<^verbatim>\<open>await Promise.allSettled(...)\<close>. The loop calls
  \<^verbatim>\<open>unsubscribe\<close> for every key; a call can only delete its own key, so the loop runs
  over the keys present when it starts. \<open>allSettled\<close> counts the promises of the call
  that are not settled yet.
\<close>

definition disconnect :: "cont \<Rightarrow> client \<Rightarrow> client" where
  "disconnect k c =
     (let c1 = c\<lparr>isManualClose := True\<rparr>;
          c2 = (case reconnectTimeoutId c1 of
                  None \<Rightarrow> c1
                | Some t \<Rightarrow> (clearTimeout t c1)\<lparr>reconnectTimeoutId := None\<rparr>);
          (p, c3) = newPromise k c2;
          ids = map (\<lambda>e. sub_id (snd e)) (subscriptions c3);
          c4 = fold (\<lambda>subscriptionId. unsubscribe (AllSettledItem p) subscriptionId) ids c3
      in if ids = [] then c4\<lparr>microtasks := microtasks c4 @ [(DisconnectAwait p, Fulfil Undefined)]\<rparr>
         else c4\<lparr>allSettled := allSettled c4 @ [(p, length ids)]\<rparr>)"

text \<open>\<^verbatim>\<open>disconnect\<close> after the \<^verbatim>\<open>await\<close>.\<close>

definition disconnect_finish :: "nat \<Rightarrow> client \<Rightarrow> client" where
  "disconnect_finish p c =
     (let c1 = (case ws c of
                  None \<Rightarrow> c
                | Some s \<Rightarrow> (ws_close s [Num 1000, Str ''Client disconnect''] c)\<lparr>ws := None\<rparr>);
          c2 = c1\<lparr>subscriptions := [], pendingRequests := []\<rparr>
      in settle p (Fulfil Undefined) c2)"

subsection \<open>Inbound messages\<close>

text \<open>The \<^verbatim>\<open>catch\<close> block of \<^verbatim>\<open>_handleMessage\<close>.\<close>

definition handleMessage_catch :: "error \<Rightarrow> client \<Rightarrow> client" where
  "handleMessage_catch e c = emit (OnError e) (log ''Error parsing message:'' c)"

definition handleMessage :: "inbound \<Rightarrow> client \<Rightarrow> client" where
  "handleMessage d c =
     (case d of
        Unparseable \<Rightarrow> handleMessage_catch SyntaxError c
      | ParsedNull \<Rightarrow> handleMessage_catch TypeError (log ''Received message:'' c)
      | Parsed m \<Rightarrow>
          let c1 = log ''Received message:'' c
          in if msg_method m = Str ''eth_subscription'' then
               (let subscriptionId = params_subscription m;
                    result = params_result m
                in if truthy subscriptionId \<and> subs_has subscriptionId (subscriptions c1) then
                     (case subs_get subscriptionId (subscriptions c1) of
                        None \<Rightarrow> c1
                      | Some subscription \<Rightarrow>
                          let cb = callback subscription;
                              c2 = c1\<lparr>effects := effects c1 @ [Called cb (Data result)]\<rparr>
                          in if fn_throws cb then handleMessage_catch (Thrown (fn_id cb)) c2
                             else c2)
                   else c1)
             else if msg_id m \<noteq> Undefined \<and> map_of (pendingRequests c1) (msg_id m) \<noteq> None then
               (case map_of (pendingRequests c1) (msg_id m) of
                  None \<Rightarrow> c1
                | Some pending \<Rightarrow>
                    pending_resolve pending m
                      (c1\<lparr>pendingRequests := AList.delete (msg_id m) (pendingRequests c1)\<rparr>))
             else c1)"

subsection \<open>Reconnection\<close>

definition scheduleReconnect :: "client \<Rightarrow> client" where
  "scheduleReconnect c =
     (if maxReconnectAttempts (options c) \<le> enat (reconnectAttempts c)
      then log ''Max reconnect attempts reached'' c
      else
        (let c1 = c\<lparr>reconnectAttempts := Suc (reconnectAttempts c)\<rparr>;
             c2 = log ''Scheduling reconnect attempt'' c1;
             c3 = emit (OnReconnect (reconnectAttempts c2)) c2;
             (t, c4) = setTimeout (reconnectDelay (options c3)) ReconnectTimeout c3
         in c4\<lparr>reconnectTimeoutId := Some t\<rparr>))"

text \<open>
  The replay loop of the reconnect timer: \<open>replay_next idx\<close> is the loop at its
  iterator, which has visited the slots below \<open>idx\<close>. It ends when no slot is left,
  and otherwise calls \<^verbatim>\<open>subscribe\<close> for the next entry and awaits the result.
\<close>

definition replay_next :: "nat \<Rightarrow> client \<Rightarrow> client" where
  "replay_next idx c =
     (case subs_next idx (subscriptions c) of
        None \<Rightarrow> c
      | Some (slot, subscription) \<Rightarrow>
          subscribe (ReplayAwaitSubscribe (sub_id subscription) (Suc slot))
            (sub_type subscription) (params subscription) (callback subscription) c)"

subsection \<open>Transport handlers\<close>

definition handleOpen :: "nat \<Rightarrow> client \<Rightarrow> client" where
  "handleOpen s c =
     (let c1 = clearTimeout (connectionTimeout (sockets c ! s)) c;
          c2 = log ''WebSocket connected'' c1;
          c3 = c2\<lparr>reconnectAttempts := 0\<rparr>;
          c4 = emit OnOpen c3
      in settle (connectPromise (sockets c ! s)) (Fulfil Undefined) c4)"

definition handleError :: "nat \<Rightarrow> client \<Rightarrow> client" where
  "handleError s c =
     (let c1 = clearTimeout (connectionTimeout (sockets c ! s)) c;
          errorMessage = ''WebSocket connection error'';
          c2 = log ''Error: WebSocket connection error'' c1;
          c3 = emit (OnError (Error errorMessage)) c2
      in settle (connectPromise (sockets c ! s)) (Reject (Error errorMessage)) c3)"

text \<open>The loop of \<^verbatim>\<open>handleClose\<close> over the pending requests.\<close>

definition reject_pending :: "jsval \<times> pending \<Rightarrow> client \<Rightarrow> client" where
  "reject_pending entry c =
     (let c1 = clearTimeout (timeoutId (snd entry)) c;
          c2 = pending_reject (snd entry) (Error ''WebSocket connection closed'') c1
      in c2\<lparr>pendingRequests := AList.delete (fst entry) (pendingRequests c2)\<rparr>)"

definition handleClose :: "nat \<Rightarrow> jsval \<Rightarrow> close_reason \<Rightarrow> client \<Rightarrow> client" where
  "handleClose s code reason c =
     (let c1 = clearTimeout (connectionTimeout (sockets c ! s)) c;
          closeCode = (case code of Num n \<Rightarrow> Num n | _ \<Rightarrow> Num 1000);
          closeReason = (case reason of
                           ReasonString r \<Rightarrow> r | ReasonBuffer r \<Rightarrow> r | NoReason \<Rightarrow> []);
          c2 = log ''WebSocket closed'' c1;
          c3 = emit (OnClose closeCode closeReason) c2;
          c4 = fold reject_pending (pendingRequests c3) c3
      in if \<not> isManualClose c4 \<and> autoReconnect (options c4) then scheduleReconnect c4 else c4)"

subsection \<open>Timers and awaiting code\<close>

text \<open>What an armed timer does when it fires; \<open>t\<close> is its own id.\<close>

fun fire :: "nat \<Rightarrow> timer \<Rightarrow> client \<Rightarrow> client" where
  "fire t (ConnectionTimeout p) c =
     (case ws c of
        None \<Rightarrow> c
      | Some s \<Rightarrow>
          if ws_state c \<noteq> Some OPEN
          then settle p (Reject (Error ''Connection timeout'')) (ws_close s [] c)
          else c)"
| "fire t (CheckInterval p) c =
     (if ws_state c = Some OPEN then settle p (Fulfil Undefined) (clearTimeout t c)
      else if ws_state c = Some CLOSED
      then settle p (Reject (Error ''Connection failed'')) (clearTimeout t c)
      else c)"
| "fire t (PollTimeout checkInterval p) c =
     settle p (Reject (Error ''Connection timeout'')) (clearTimeout checkInterval c)"
| "fire t (SubscribeTimeout requestId p) c =
     settle p (Reject (Error ''Subscribe request timeout''))
       (c\<lparr>pendingRequests := AList.delete requestId (pendingRequests c)\<rparr>)"
| "fire t (UnsubscribeTimeout requestId p) c =
     settle p (Reject (Error ''Unsubscribe request timeout''))
       (c\<lparr>pendingRequests := AList.delete requestId (pendingRequests c)\<rparr>)"
| "fire t ReconnectTimeout c = connect ReconnectAwaitConnect (c\<lparr>isManualClose := False\<rparr>)"

fun is_interval :: "timer \<Rightarrow> bool" where
  "is_interval (CheckInterval p) = True"
| "is_interval a = False"

text \<open>The code after an \<^verbatim>\<open>await\<close>, run with the outcome of the awaited promise.\<close>

fun resume :: "cont \<Rightarrow> outcome \<Rightarrow> client \<Rightarrow> client" where
  "resume (Caller n) out c = deliver (Caller n) out c"
| "resume (SubscribeAwaitConnect ty ps cb k) (Fulfil v) c = subscribe_request k ty ps cb c"
| "resume (SubscribeAwaitConnect ty ps cb k) (Reject e) c = deliver k (Reject e) c"
| "resume ReconnectAwaitConnect (Fulfil v) c = replay_next 0 c"
| "resume ReconnectAwaitConnect (Reject e) c = scheduleReconnect (log ''Reconnect failed:'' c)"
| "resume (ReplayAwaitSubscribe subscriptionId idx) (Fulfil v) c =
     replay_next idx (c\<lparr>subscriptions := subs_delete subscriptionId (subscriptions c)\<rparr>)"
| "resume (ReplayAwaitSubscribe subscriptionId idx) (Reject e) c =
     replay_next idx (log ''Failed to resubscribe'' c)"
| "resume (AllSettledItem p) out c =
     (case map_of (allSettled c) p of
        None \<Rightarrow> c
      | Some n \<Rightarrow>
          if n \<le> 1
          then c\<lparr>allSettled := AList.delete p (allSettled c),
                 microtasks := microtasks c @ [(DisconnectAwait p, Fulfil Undefined)]\<rparr>
          else c\<lparr>allSettled := AList.update p (n - 1) (allSettled c)\<rparr>)"
| "resume (DisconnectAwait p) out c = disconnect_finish p c"

subsection \<open>The event loop\<close>

text \<open>
  One step of the client: a call of the public interface, a signal of a transport the
  client has created, an armed timer firing, or the next promise reaction. A step that
  cannot happen in a state (a timer that is not armed, a signal a transport cannot give
  in its state, a reaction when none is queued) is \<open>None\<close>. A transport is open
  when it signals \<^verbatim>\<open>open\<close>, closed when it signals \<^verbatim>\<open>close\<close>, and no longer connecting
  or open (here: closing) when it signals \<^verbatim>\<open>error\<close>.
\<close>

datatype event =
    Connect nat
  | Disconnect nat
  | Subscribe nat SubscriptionType "jsval list" fn
  | Unsubscribe nat jsval
  | On event_kind fn
  | Off event_kind fn
  | WsOpen nat
  | WsMessage nat inbound
  | WsError nat
  | WsClose nat jsval close_reason
  | Timer nat
  | Microtask

definition socket_in :: "nat \<Rightarrow> ready_state set \<Rightarrow> client \<Rightarrow> bool" where
  "socket_in s rs c = (s < length (sockets c) \<and> readyState (sockets c ! s) \<in> rs)"

fun step :: "event \<Rightarrow> client \<Rightarrow> client option" where
  "step (Connect n) c = Some (connect (Caller n) c)"
| "step (Disconnect n) c = Some (disconnect (Caller n) c)"
| "step (Subscribe n ty ps cb) c = Some (subscribe (Caller n) ty ps cb c)"
| "step (Unsubscribe n subscriptionId) c = Some (unsubscribe (Caller n) subscriptionId c)"
| "step (On ev listener) c = Some (on ev listener c)"
| "step (Off ev listener) c = Some (off ev listener c)"
| "step (WsOpen s) c =
     (if socket_in s {CONNECTING} c then Some (handleOpen s (set_readyState s OPEN c)) else None)"
| "step (WsMessage s d) c =
     (if socket_in s {OPEN, CLOSING} c then Some (handleMessage d c) else None)"
| "step (WsError s) c =
     (if socket_in s {CONNECTING, OPEN, CLOSING} c
      then Some (handleError s (set_readyState s CLOSING c)) else None)"
| "step (WsClose s code reason) c =
     (if socket_in s {CONNECTING, OPEN, CLOSING} c
      then Some (handleClose s code reason (set_readyState s CLOSED c)) else None)"
| "step (Timer t) c =
     (case map_of (timers c) t of
        None \<Rightarrow> None
      | Some (delay, a) \<Rightarrow> Some (fire t a (if is_interval a then c else clearTimeout t c)))"
| "step Microtask c =
     (case microtasks c of
        [] \<Rightarrow> None
      | (k, out) # rest \<Rightarrow> Some (resume k out (c\<lparr>microtasks := rest\<rparr>)))"

fun run :: "event list \<Rightarrow> client \<Rightarrow> client option" where
  "run [] c = Some c"
| "run (e # es) c = (case step e c of None \<Rightarrow> None | Some c1 \<Rightarrow> run es c1)"

subsection \<open>Example clients\<close>

text \<open>
  A client constructed with \<^verbatim>\<open>maxReconnectAttempts: 2\<close> and \<^verbatim>\<open>reconnectDelay: 10\<close>,
  every other option left to its default, and the states it reaches in the scenarios of
  the theorems below.
\<close>

definition example_options :: SubscriptionOptions where
  "example_options =
     \<lparr>opt_network = ''eth-mainnet'', opt_apiKey = ''key'', opt_timeout = None,
      opt_debug = None, opt_autoReconnect = None, opt_reconnectDelay = Some 10,
      opt_maxReconnectAttempts = Some 2\<rparr>"

definition example_runtime :: runtime where
  "example_runtime =
     \<lparr>rt_websocketImpl = True, rt_dateNow = (\<lambda>n. 1700000000000 + n),
      rt_mathRandom = (\<lambda>n. ''k3x9q'')\<rparr>"

definition example_client :: client where
  "example_client = projr (constructor example_options example_runtime)"

definition after :: "event list \<Rightarrow> client \<Rightarrow> client" where
  "after es c = the (run es c)"


subsection \<open>Observations and invariants\<close>

text \<open>The calls of subscription callbacks among the effects, with their payloads.\<close>

fun callback_call :: "effect \<Rightarrow> (fn \<times> jsval) list" where
  "callback_call (Called f (Data v)) = [(f, v)]"
| "callback_call e = []"

definition callback_calls :: "effect list \<Rightarrow> (fn \<times> jsval) list" where
  "callback_calls es = concat (map callback_call es)"

text \<open>The attempt numbers of the \<^verbatim>\<open>reconnect\<close> events among the effects.\<close>

fun reconnect_event :: "effect \<Rightarrow> nat list" where
  "reconnect_event (Emitted (OnReconnect n)) = [n]"
| "reconnect_event e = []"

definition reconnect_events :: "effect list \<Rightarrow> nat list" where
  "reconnect_events es = concat (map reconnect_event es)"

text \<open>
  Every key of the registry is truthy: \<^verbatim>\<open>subscribe\<close> stores an id only after it has
  passed the test \<^verbatim>\<open>!subscriptionId\<close>.
\<close>

definition registry_ok :: "client \<Rightarrow> bool" where
  "registry_ok c = list_all (\<lambda>e. truthy (sub_id (snd e))) (subscriptions c)"

text \<open>The ids of the unsettled promises and of the armed timers were handed out by the counters.\<close>

definition fresh_ids :: "client \<Rightarrow> bool" where
  "fresh_ids c =
     (list_all (\<lambda>e. fst e < promiseCounter c) (promises c)
      \<and> list_all (\<lambda>e. fst e \<le> timerCounter c) (timers c))"

definition example_open :: client where
  "example_open = after [Connect 0, WsOpen 0] example_client"

definition example_response :: "jsval \<Rightarrow> jsval \<Rightarrow> msg" where
  "example_response i r =
     \<lparr>msg_method = Undefined, params_subscription = Undefined, params_result = Undefined,
      msg_id = i, msg_result = r, msg_error = None\<rparr>"

definition example_failure :: "jsval \<Rightarrow> msg" where
  "example_failure i =
     \<lparr>msg_method = Undefined, params_subscription = Undefined, params_result = Undefined,
      msg_id = i, msg_result = Undefined,
      msg_error = Some \<lparr>err_code = Num (- 32000), err_message = Str ''limit'', err_data = Undefined\<rparr>\<rparr>"

definition example_push :: "jsval \<Rightarrow> jsval \<Rightarrow> msg" where
  "example_push i payload =
     \<lparr>msg_method = Str ''eth_subscription'', params_subscription = i, params_result = payload,
      msg_id = Undefined, msg_result = Undefined, msg_error = None\<rparr>"

text \<open>The id of the \<open>n\<close>-th request of the example clients.\<close>

definition example_request :: "nat \<Rightarrow> jsval" where
  "example_request n = Str (digits (1700000000000 + n) @ ''-'' @ digits n @ ''-k3x9q'')"

definition example_subscribing :: client where
  "example_subscribing = after [Subscribe 1 newHeads [] (Fn 7 False)] example_open"

definition example_subscribed :: client where
  "example_subscribed =
     after [WsMessage 0 (Parsed (example_response (example_request 1) (Str ''0xabc'')))]
       example_subscribing"

definition example_connecting :: client where
  "example_connecting = after [Connect 0] example_client"

text \<open>
  The ways an attempt to open transport \<open>s\<close> fails, \<open>ct\<close> being the connection timer
  of the attempt: the transport signals an error and then its closure, with the promise
  reactions run in between (as browsers do) or after both (as the \<^verbatim>\<open>ws\<close> package
  does, which emits both signals in one turn); the connection timer fires first and the
  closure follows; or the transport only signals its closure.
\<close>

datatype failure = ErrorThenClose | ErrorAndClose | TimeoutThenClose | CloseOnly

fun failed_open :: "failure \<Rightarrow> nat \<Rightarrow> nat \<Rightarrow> event list" where
  "failed_open ErrorThenClose s ct = [WsError s, Microtask, WsClose s (Num 1006) NoReason]"
| "failed_open ErrorAndClose s ct = [WsError s, WsClose s (Num 1006) NoReason, Microtask]"
| "failed_open TimeoutThenClose s ct = [Timer ct, Microtask, WsClose s (Num 1006) NoReason]"
| "failed_open CloseOnly s ct = [WsClose s (Num 1006) NoReason]"

text \<open>
  The scenario of two failed reconnections: the client connects, the transport closes
  unexpectedly, and the two attempts that the reconnect timers (2 and 4) start both fail.
\<close>

definition two_failed_reconnects :: "failure \<Rightarrow> failure \<Rightarrow> event list" where
  "two_failed_reconnects f1 f2 =
     [Connect 0, WsOpen 0, WsClose 0 (Num 1006) NoReason, Timer 2] @ failed_open f1 1 3
     @ [Timer 4] @ failed_open f2 2 5"

fun is_reconnect_timer :: "nat \<times> nat \<times> timer \<Rightarrow> bool" where
  "is_reconnect_timer (t, d, ReconnectTimeout) = True"
| "is_reconnect_timer (t, d, a) = False"

text \<open>The client has used up its reconnect attempts and no reconnect timer is armed.\<close>

definition gave_up :: "client \<Rightarrow> bool" where
  "gave_up c =
     (maxReconnectAttempts (options c) \<le> enat (reconnectAttempts c)
      \<and> \<not> list_ex is_reconnect_timer (timers c))"

fun is_open_signal :: "event \<Rightarrow> bool" where
  "is_open_signal (WsOpen s) = True"
| "is_open_signal e = False"

text \<open>
  \<open>quiet c c'\<close>: from \<open>c\<close> to \<open>c'\<close> the options and the attempt counter stayed the same,
  no \<^verbatim>\<open>reconnect\<close> event was emitted, and no reconnect timer is armed that was not armed
  before.
\<close>

definition quiet :: "client \<Rightarrow> client \<Rightarrow> bool" where
  "quiet c c' =
     (options c' = options c
      \<and> reconnectAttempts c' = reconnectAttempts c
      \<and> (list_ex is_reconnect_timer (timers c') \<longrightarrow> list_ex is_reconnect_timer (timers c))
      \<and> reconnect_events (effects c') = reconnect_events (effects c))"

text \<open>
  The state of the scenario between its two attempts: the second reconnect timer (4) is
  the only armed timer, both transports created so far are closed, nothing is pending or
  queued, and both attempts have been counted.
\<close>

definition awaiting_second_attempt :: "client \<Rightarrow> bool" where
  "awaiting_second_attempt c =
     (map (\<lambda>e. (fst e, snd (snd e))) (timers c) = [(4, ReconnectTimeout)]
      \<and> timerCounter c = 4 \<and> ws c = Some 1
      \<and> map readyState (sockets c) = [CLOSED, CLOSED]
      \<and> list_all (\<lambda>e. fst e < promiseCounter c) (promises c)
      \<and> microtasks c = [] \<and> pendingRequests c = []
      \<and> eventListeners c = (\<lambda>ev. [])
      \<and> websocketImpl c \<and> reconnectAttempts c = 2)"
subsection \<open>The replay after a reconnect\<close>

text \<open>
  What the server answers to a subscribe request: the id it assigns, or an error. The
  replay is followed one answer at a time: a round is the response to the request in
  flight (the one the client generated last) and the promise reaction that follows, in
  which the loop moves on. A pass is the reaction that starts the loop after the
  transport has opened, and then the rounds.
\<close>

datatype answer = Assigned jsval | Refused rpc_error

fun answer_message :: "jsval \<Rightarrow> answer \<Rightarrow> msg" where
  "answer_message rid (Assigned v) =
     \<lparr>msg_method = Undefined, params_subscription = Undefined, params_result = Undefined,
      msg_id = rid, msg_result = v, msg_error = None\<rparr>"
| "answer_message rid (Refused e) =
     \<lparr>msg_method = Undefined, params_subscription = Undefined, params_result = Undefined,
      msg_id = rid, msg_result = Undefined, msg_error = Some e\<rparr>"

definition last_request_id :: "client \<Rightarrow> jsval" where
  "last_request_id c =
     Str (digits (dateNow c (requestIdCounter c)) @ ''-'' @ digits (requestIdCounter c)
          @ ''-'' @ mathRandom c (requestIdCounter c))"

definition replay_round :: "answer \<Rightarrow> client \<Rightarrow> client option" where
  "replay_round a c =
     (case ws c of
        None \<Rightarrow> None
      | Some s \<Rightarrow>
          run [WsMessage s (Parsed (answer_message (last_request_id c) a)), Microtask] c)"

fun replay_rounds :: "answer list \<Rightarrow> client \<Rightarrow> client option" where
  "replay_rounds [] c = Some c"
| "replay_rounds (a # as) c =
     (case replay_round a c of None \<Rightarrow> None | Some c1 \<Rightarrow> replay_rounds as c1)"

definition replay_pass :: "answer list \<Rightarrow> client \<Rightarrow> client option" where
  "replay_pass as c =
     (case step Microtask c of None \<Rightarrow> None | Some c1 \<Rightarrow> replay_rounds as c1)"

text \<open>
  The entries of a registry, in order, whose replay was refused, and those whose replay
  was answered with an id, under that id.
\<close>

fun kept_entries :: "Subscription list \<Rightarrow> answer list \<Rightarrow> Subscription list" where
  "kept_entries (s # ss) (Refused e # as) = s # kept_entries ss as"
| "kept_entries (s # ss) (Assigned v # as) = kept_entries ss as"
| "kept_entries ss as = []"

fun renamed_entries :: "Subscription list \<Rightarrow> answer list \<Rightarrow> Subscription list" where
  "renamed_entries (s # ss) (Assigned v # as) = s\<lparr>sub_id := v\<rparr> # renamed_entries ss as"
| "renamed_entries (s # ss) (Refused e # as) = renamed_entries ss as"
| "renamed_entries ss as = []"

fun assigned_ids :: "answer list \<Rightarrow> jsval list" where
  "assigned_ids [] = []"
| "assigned_ids (Assigned v # as) = v # assigned_ids as"
| "assigned_ids (Refused e # as) = assigned_ids as"

text \<open>
  The registry as a \<^verbatim>\<open>Map\<close> has it: slots in increasing order and below the next free
  slot, no key twice.
\<close>

definition registry_wf :: "client \<Rightarrow> bool" where
  "registry_wf c =
     (sorted_wrt (<) (map fst (subscriptions c))
      \<and> list_all (\<lambda>e. fst e < subscriptionSlots c) (subscriptions c)
      \<and> distinct (map (\<lambda>e. sub_id (snd e)) (subscriptions c)))"

text \<open>The client right after the transport of a reconnect attempt has opened.\<close>

definition reconnected :: "client \<Rightarrow> bool" where
  "reconnected c =
     (microtasks c = [(ReconnectAwaitConnect, Fulfil Undefined)]
      \<and> ws_state c = Some OPEN \<and> fresh_ids c \<and> registry_wf c)"

text \<open>
  The replay loop waiting for the answer to its request for the entry \<open>cur\<close>: the
  entries \<open>kept\<close> before it have been visited, the entries \<open>rest\<close> after it have not.
\<close>

definition replay_at ::
    "(nat \<times> Subscription) list \<Rightarrow> nat \<times> Subscription \<Rightarrow> (nat \<times> Subscription) list
      \<Rightarrow> client \<Rightarrow> bool" where
  "replay_at kept cur rest c =
     (subscriptions c = kept @ cur # rest
      \<and> registry_wf c \<and> microtasks c = [] \<and> ws_state c = Some OPEN \<and> fresh_ids c
      \<and> (\<exists>p t. map_of (pendingRequests c) (last_request_id c) =
                   Some (PendingSubscribe (sub_type (snd cur)) (params (snd cur))
                           (callback (snd cur)) p t)
                 \<and> map_of (promises c) p =
                     Some (ReplayAwaitSubscribe (sub_id (snd cur)) (Suc (fst cur)))))"

text \<open>
  The scenario of a reconnect whose replay is refused: the subscribed example client
  loses its transport, reconnects (timer 3, transport 1), replays its subscription
  (request 2), and the server answers with an error.
\<close>

definition example_replay_refused :: client where
  "example_replay_refused =
     after [WsClose 0 (Num 1006) NoReason, Timer 3, WsOpen 1, Microtask,
            WsMessage 1 (Parsed (example_failure (example_request 2))), Microtask]
       example_subscribed"

definition example_reconnected :: client where
  "example_reconnected =
     after [WsClose 0 (Num 1006) NoReason, Timer 3, WsOpen 1] example_subscribed"

text \<open>The requests among the effects: the transport, the method and its parameters.\<close>

fun sent_request :: "effect \<Rightarrow> (nat \<times> string \<times> jsval list) list" where
  "sent_request (Send s m ps rid) = [(s, m, ps)]"
| "sent_request e = []"

definition sent_requests :: "effect list \<Rightarrow> (nat \<times> string \<times> jsval list) list" where
  "sent_requests es = concat (map sent_request es)"

text \<open>
  The scenario of a reconnect whose replay is answered: the reconnected example client
  starts the replay (request 2), the server assigns the id \<^verbatim>\<open>0xdef\<close>, the loop goes
  on (request 3), the server assigns the id \<^verbatim>\<open>0x123\<close>, and the loop goes on again.
\<close>

definition example_replayed_twice :: client where
  "example_replayed_twice =
     after [Microtask,
            WsMessage 1 (Parsed (example_response (example_request 2) (Str ''0xdef''))), Microtask,
            WsMessage 1 (Parsed (example_response (example_request 3) (Str ''0x123''))), Microtask]
       example_reconnected"

text \<open>
  The scenario of a reconnect whose replay is answered with the id the subscription had
  before: the reconnected example client starts the replay (request 2), the server
  assigns the id \<^verbatim>\<open>0xabc\<close> again, and the loop goes on.
\<close>

definition example_replay_same_id :: client where
  "example_replay_same_id =
     after [Microtask,
            WsMessage 1 (Parsed (example_response (example_request 2) (Str ''0xabc''))), Microtask]
       example_reconnected"

text \<open>What identifies a subscription across a reconnect: kind, parameters and callback.\<close>

definition logical :: "Subscription \<Rightarrow> SubscriptionType \<times> jsval list \<times> fn" where
  "logical s = (sub_type s, params s, callback s)"

text \<open>The two invariants together; every state the client can reach has them.\<close>

definition well_formed :: "client \<Rightarrow> bool" where
  "well_formed c = (registry_ok c \<and> fresh_ids c)"

subsection \<open>What each primitive leaves unchanged\<close>

lemma ws_state_cong: "ws c1 = ws c \<Longrightarrow> sockets c1 = sockets c \<Longrightarrow> ws_state c1 = ws_state c"
  by (simp add: ws_state_def split: option.splits)


lemma log_frame [simp]:
  "options (log text c) = options c"
  "ws (log text c) = ws c"
  "subscriptions (log text c) = subscriptions c"
  "subscriptionSlots (log text c) = subscriptionSlots c"
  "pendingRequests (log text c) = pendingRequests c"
  "requestIdCounter (log text c) = requestIdCounter c"
  "reconnectAttempts (log text c) = reconnectAttempts c"
  "reconnectTimeoutId (log text c) = reconnectTimeoutId c"
  "isManualClose (log text c) = isManualClose c"
  "eventListeners (log text c) = eventListeners c"
  "websocketImpl (log text c) = websocketImpl c"
  "dateNow (log text c) = dateNow c"
  "mathRandom (log text c) = mathRandom c"
  "sockets (log text c) = sockets c"
  "timers (log text c) = timers c"
  "timerCounter (log text c) = timerCounter c"
  "promises (log text c) = promises c"
  "promiseCounter (log text c) = promiseCounter c"
  "allSettled (log text c) = allSettled c"
  "microtasks (log text c) = microtasks c"
  "effects (log text c) = effects c"
  by (simp_all add: log_def)

lemma log_ws_state [simp]: "ws_state (log text c) = ws_state c"
  by (rule ws_state_cong) simp_all

lemma clearTimeout_frame [simp]:
  "options (clearTimeout t c) = options c"
  "ws (clearTimeout t c) = ws c"
  "subscriptions (clearTimeout t c) = subscriptions c"
  "subscriptionSlots (clearTimeout t c) = subscriptionSlots c"
  "pendingRequests (clearTimeout t c) = pendingRequests c"
  "requestIdCounter (clearTimeout t c) = requestIdCounter c"
  "reconnectAttempts (clearTimeout t c) = reconnectAttempts c"
  "reconnectTimeoutId (clearTimeout t c) = reconnectTimeoutId c"
  "isManualClose (clearTimeout t c) = isManualClose c"
  "eventListeners (clearTimeout t c) = eventListeners c"
  "websocketImpl (clearTimeout t c) = websocketImpl c"
  "dateNow (clearTimeout t c) = dateNow c"
  "mathRandom (clearTimeout t c) = mathRandom c"
  "sockets (clearTimeout t c) = sockets c"
  "timerCounter (clearTimeout t c) = timerCounter c"
  "promises (clearTimeout t c) = promises c"
  "promiseCounter (clearTimeout t c) = promiseCounter c"
  "allSettled (clearTimeout t c) = allSettled c"
  "microtasks (clearTimeout t c) = microtasks c"
  "effects (clearTimeout t c) = effects c"
  "console (clearTimeout t c) = console c"
  by (simp_all add: clearTimeout_def)

lemma clearTimeout_ws_state [simp]: "ws_state (clearTimeout t c) = ws_state c"
  by (rule ws_state_cong) simp_all

lemma deliver_frame [simp]:
  "options (deliver k out c) = options c"
  "ws (deliver k out c) = ws c"
  "subscriptions (deliver k out c) = subscriptions c"
  "subscriptionSlots (deliver k out c) = subscriptionSlots c"
  "pendingRequests (deliver k out c) = pendingRequests c"
  "requestIdCounter (deliver k out c) = requestIdCounter c"
  "reconnectAttempts (deliver k out c) = reconnectAttempts c"
  "reconnectTimeoutId (deliver k out c) = reconnectTimeoutId c"
  "isManualClose (deliver k out c) = isManualClose c"
  "eventListeners (deliver k out c) = eventListeners c"
  "websocketImpl (deliver k out c) = websocketImpl c"
  "dateNow (deliver k out c) = dateNow c"
  "mathRandom (deliver k out c) = mathRandom c"
  "sockets (deliver k out c) = sockets c"
  "timers (deliver k out c) = timers c"
  "timerCounter (deliver k out c) = timerCounter c"
  "promises (deliver k out c) = promises c"
  "promiseCounter (deliver k out c) = promiseCounter c"
  "allSettled (deliver k out c) = allSettled c"
  "console (deliver k out c) = console c"
  by (simp_all add: deliver_def split: cont.splits)

lemma deliver_ws_state [simp]: "ws_state (deliver k out c) = ws_state c"
  by (rule ws_state_cong) simp_all

lemma settle_frame [simp]:
  "options (settle p out c) = options c"
  "ws (settle p out c) = ws c"
  "subscriptions (settle p out c) = subscriptions c"
  "subscriptionSlots (settle p out c) = subscriptionSlots c"
  "pendingRequests (settle p out c) = pendingRequests c"
  "requestIdCounter (settle p out c) = requestIdCounter c"
  "reconnectAttempts (settle p out c) = reconnectAttempts c"
  "reconnectTimeoutId (settle p out c) = reconnectTimeoutId c"
  "isManualClose (settle p out c) = isManualClose c"
  "eventListeners (settle p out c) = eventListeners c"
  "websocketImpl (settle p out c) = websocketImpl c"
  "dateNow (settle p out c) = dateNow c"
  "mathRandom (settle p out c) = mathRandom c"
  "sockets (settle p out c) = sockets c"
  "timers (settle p out c) = timers c"
  "timerCounter (settle p out c) = timerCounter c"
  "promiseCounter (settle p out c) = promiseCounter c"
  "allSettled (settle p out c) = allSettled c"
  "console (settle p out c) = console c"
  by (simp_all add: settle_def split: option.splits)

lemma settle_ws_state [simp]: "ws_state (settle p out c) = ws_state c"
  by (rule ws_state_cong) simp_all

lemma call_listeners_frame [simp]:
  "options (call_listeners ls ev c) = options c"
  "ws (call_listeners ls ev c) = ws c"
  "subscriptions (call_listeners ls ev c) = subscriptions c"
  "subscriptionSlots (call_listeners ls ev c) = subscriptionSlots c"
  "pendingRequests (call_listeners ls ev c) = pendingRequests c"
  "requestIdCounter (call_listeners ls ev c) = requestIdCounter c"
  "reconnectAttempts (call_listeners ls ev c) = reconnectAttempts c"
  "reconnectTimeoutId (call_listeners ls ev c) = reconnectTimeoutId c"
  "isManualClose (call_listeners ls ev c) = isManualClose c"
  "eventListeners (call_listeners ls ev c) = eventListeners c"
  "websocketImpl (call_listeners ls ev c) = websocketImpl c"
  "dateNow (call_listeners ls ev c) = dateNow c"
  "mathRandom (call_listeners ls ev c) = mathRandom c"
  "sockets (call_listeners ls ev c) = sockets c"
  "timers (call_listeners ls ev c) = timers c"
  "timerCounter (call_listeners ls ev c) = timerCounter c"
  "promises (call_listeners ls ev c) = promises c"
  "promiseCounter (call_listeners ls ev c) = promiseCounter c"
  "allSettled (call_listeners ls ev c) = allSettled c"
  "microtasks (call_listeners ls ev c) = microtasks c"
  by (induction ls arbitrary: c; simp add: Let_def)+

lemma call_listeners_ws_state [simp]: "ws_state (call_listeners ls ev c) = ws_state c"
  by (rule ws_state_cong) simp_all

lemma emit_frame [simp]:
  "options (emit ev c) = options c"
  "ws (emit ev c) = ws c"
  "subscriptions (emit ev c) = subscriptions c"
  "subscriptionSlots (emit ev c) = subscriptionSlots c"
  "pendingRequests (emit ev c) = pendingRequests c"
  "requestIdCounter (emit ev c) = requestIdCounter c"
  "reconnectAttempts (emit ev c) = reconnectAttempts c"
  "reconnectTimeoutId (emit ev c) = reconnectTimeoutId c"
  "isManualClose (emit ev c) = isManualClose c"
  "eventListeners (emit ev c) = eventListeners c"
  "websocketImpl (emit ev c) = websocketImpl c"
  "dateNow (emit ev c) = dateNow c"
  "mathRandom (emit ev c) = mathRandom c"
  "sockets (emit ev c) = sockets c"
  "timers (emit ev c) = timers c"
  "timerCounter (emit ev c) = timerCounter c"
  "promises (emit ev c) = promises c"
  "promiseCounter (emit ev c) = promiseCounter c"
  "allSettled (emit ev c) = allSettled c"
  "microtasks (emit ev c) = microtasks c"
  by (simp_all add: emit_def)

lemma emit_ws_state [simp]: "ws_state (emit ev c) = ws_state c"
  by (rule ws_state_cong) simp_all

subsection \<open>The event bus\<close>

lemma call_listeners_effects:
  "effects (call_listeners ls ev c) = effects c @ map (\<lambda>l. Called l (Event ev)) ls"
  by (induction ls arbitrary: c) (simp_all add: Let_def)






subsection \<open>Inbound messages\<close>

lemma example_client_eq:
  "example_client =
     \<lparr>options = \<lparr>network = ''eth-mainnet'', apiKey = ''key'', timeout = 10000, debug = False,
                  autoReconnect = True, reconnectDelay = 10, maxReconnectAttempts = 2\<rparr>,
      ws = None, subscriptions = [], subscriptionSlots = 0, pendingRequests = [],
      requestIdCounter = 0, reconnectAttempts = 0, reconnectTimeoutId = None,
      isManualClose = False, eventListeners = (\<lambda>ev. []), websocketImpl = True,
      dateNow = (\<lambda>n. 1700000000000 + n), mathRandom = (\<lambda>n. ''k3x9q''), sockets = [],
      timers = [], timerCounter = 0, promises = [], promiseCounter = 0, allSettled = [],
      microtasks = [], effects = [], console = []\<rparr>"
  by (simp add: example_client_def constructor_def example_options_def example_runtime_def
      default_to_def)

lemma example_open_eq:
  "example_open =
     example_client
       \<lparr>ws := Some 0,
        sockets := [\<lparr>readyState = OPEN, connectPromise = 0, connectionTimeout = 1\<rparr>],
        timerCounter := 1, promiseCounter := 1,
        effects := [Constructed 0 ''wss://eth-mainnet.xrpc.pro?apiKey=key'', Emitted OnOpen,
                    Resolved 0 Undefined]\<rparr>"
  by (simp add: example_open_def example_client_eq after_def connect_def ws_state_def
      newPromise_def buildWebSocketUrl_def log_def setTimeout_def socket_in_def
      set_readyState_def handleOpen_def clearTimeout_def emit_def settle_def deliver_def
      Let_def)

text \<open>
  C10. A parsed message that is not a push and whose id is missing or is not a key of
  \<^verbatim>\<open>pendingRequests\<close> only reaches the debug log: the pending requests, the registry,
  the transport and its state, the timers and the promises stay as they are, and
  nothing is emitted or called.
\<close>

theorem unmatched_response_is_ignored:
  assumes "msg_method m \<noteq> Str ''eth_subscription''"
    and "msg_id m = Undefined \<or> map_of (pendingRequests c) (msg_id m) = None"
  shows "handleMessage (Parsed m) c = log ''Received message:'' c
         \<and> pendingRequests (handleMessage (Parsed m) c) = pendingRequests c
         \<and> subscriptions (handleMessage (Parsed m) c) = subscriptions c
         \<and> ws (handleMessage (Parsed m) c) = ws c
         \<and> sockets (handleMessage (Parsed m) c) = sockets c
         \<and> getState (handleMessage (Parsed m) c) = getState c
         \<and> effects (handleMessage (Parsed m) c) = effects c"
proof -
  have "handleMessage (Parsed m) c = log ''Received message:'' c"
    using assms by (auto simp add: handleMessage_def Let_def)
  then show ?thesis
    by (simp add: getState_def)
qed

theorem unmatched_response_is_ignored_witness:
  "handleMessage (Parsed (example_response (Num 99) (Str ''0x1''))) example_open = example_open"
  using unmatched_response_is_ignored
    [of "example_response (Num 99) (Str ''0x1'')" example_open]
  by (simp add: example_response_def example_open_eq example_client_eq log_def)

lemma subs_get_has: "subs_get k m = Some s \<Longrightarrow> subs_has k m"
  by (induction m) (auto simp add: subs_get_def subs_has_def split: if_splits)

lemma subs_get_key: "subs_get k m = Some s \<Longrightarrow> sub_id s = k"
  by (induction m) (auto simp add: subs_get_def split: if_splits)

lemma subs_get_all:
  "list_all (\<lambda>e. P (sub_id (snd e))) m \<Longrightarrow> subs_get k m = Some s \<Longrightarrow> P k"
  by (induction m) (auto simp add: subs_get_def split: if_splits)

lemma subs_get_truthy:
  "registry_ok c \<Longrightarrow> subs_get k (subscriptions c) = Some s \<Longrightarrow> truthy k"
  unfolding registry_ok_def by (rule subs_get_all)

lemma callback_calls_append [simp]:
  "callback_calls (xs @ ys) = callback_calls xs @ callback_calls ys"
  by (simp add: callback_calls_def)

lemma callback_calls_listeners [simp]:
  "callback_calls (map (\<lambda>l. Called l (Event ev)) ls) = []"
  by (induction ls) (simp_all add: callback_calls_def)

text \<open>
  C6. For a push (\<^verbatim>\<open>method\<close> is \<^verbatim>\<open>eth_subscription\<close>): when its subscription id is a key
  of the registry, the callback stored under that key is called once with the payload and
  no other subscription callback is called (if it returns, that call is the only effect);
  when the id is missing or is no key, the push only reaches the debug log.
\<close>

theorem push_is_dispatched_to_its_callback:
  assumes "msg_method m = Str ''eth_subscription''" and "registry_ok c"
  shows "(\<forall>s. subs_get (params_subscription m) (subscriptions c) = Some s \<longrightarrow>
            sub_id s = params_subscription m
            \<and> callback_calls (effects (handleMessage (Parsed m) c)) =
                callback_calls (effects c) @ [(callback s, params_result m)]
            \<and> (\<not> fn_throws (callback s) \<longrightarrow>
                  effects (handleMessage (Parsed m) c) =
                    effects c @ [Called (callback s) (Data (params_result m))])
            \<and> subscriptions (handleMessage (Parsed m) c) = subscriptions c
            \<and> pendingRequests (handleMessage (Parsed m) c) = pendingRequests c)
         \<and> (\<not> subs_has (params_subscription m) (subscriptions c) \<longrightarrow>
              handleMessage (Parsed m) c = log ''Received message:'' c
              \<and> effects (handleMessage (Parsed m) c) = effects c)"
proof (intro conjI allI impI)
  fix s
  assume s: "subs_get (params_subscription m) (subscriptions c) = Some s"
  have has: "subs_has (params_subscription m) (subscriptions c)"
    using s by (rule subs_get_has)
  have tr: "truthy (params_subscription m)"
    using assms(2) s by (rule subs_get_truthy)
  show "sub_id s = params_subscription m"
    using s by (rule subs_get_key)
  show "callback_calls (effects (handleMessage (Parsed m) c)) =
          callback_calls (effects c) @ [(callback s, params_result m)]"
    using assms(1) s has tr
    by (simp add: handleMessage_def handleMessage_catch_def Let_def emit_def
        call_listeners_effects callback_calls_def)
  show "effects (handleMessage (Parsed m) c) =
          effects c @ [Called (callback s) (Data (params_result m))]"
    if "\<not> fn_throws (callback s)"
    using assms(1) s has tr that by (simp add: handleMessage_def Let_def)
  show "subscriptions (handleMessage (Parsed m) c) = subscriptions c"
    using assms(1) s has tr by (simp add: handleMessage_def handleMessage_catch_def Let_def)
  show "pendingRequests (handleMessage (Parsed m) c) = pendingRequests c"
    using assms(1) s has tr by (simp add: handleMessage_def handleMessage_catch_def Let_def)
next
  assume "\<not> subs_has (params_subscription m) (subscriptions c)"
  then show "handleMessage (Parsed m) c = log ''Received message:'' c"
    using assms(1) by (simp add: handleMessage_def Let_def)
  then show "effects (handleMessage (Parsed m) c) = effects c"
    by simp
qed

lemma example_subscribing_eq:
  "example_subscribing =
     example_open
       \<lparr>pendingRequests :=
          [(example_request 1, PendingSubscribe newHeads [] (Fn 7 False) 1 2)],
        requestIdCounter := 1,
        timers := [(2, 10000, SubscribeTimeout (example_request 1) 1)],
        timerCounter := 2, promises := [(1, Caller 1)], promiseCounter := 2,
        effects := effects example_open @
                     [Send 0 ''eth_subscribe'' [Str ''newHeads''] (example_request 1)]\<rparr>"
  by (simp add: example_subscribing_def example_open_eq example_client_eq example_request_def
      after_def subscribe_def subscribe_request_def ws_state_def generateRequestId_def
      newPromise_def setTimeout_def sendRequest_def log_def Let_def)

lemma example_subscribed_eq:
  "example_subscribed =
     example_subscribing
       \<lparr>pendingRequests := [], timers := [], promises := [],
        subscriptions := [(0, \<lparr>sub_id = Str ''0xabc'', sub_type = newHeads, params = [],
                                callback = Fn 7 False\<rparr>)],
        subscriptionSlots := 1,
        effects := effects example_subscribing @ [Resolved 1 (Str ''0xabc'')]\<rparr>"
  by (simp add: example_subscribed_def example_subscribing_eq example_open_eq example_client_eq
      example_request_def example_response_def after_def socket_in_def handleMessage_def
      log_def clearTimeout_def settle_def deliver_def subs_set_def subs_has_def Let_def)

theorem push_is_dispatched_to_its_callback_witness:
  "callback_calls
     (effects (handleMessage (Parsed (example_push (Str ''0xabc'') (Obj 16))) example_subscribed)) =
   [(Fn 7 False, Obj 16)]"
  using push_is_dispatched_to_its_callback
    [of "example_push (Str ''0xabc'') (Obj 16)" example_subscribed]
  by (simp add: example_push_def registry_ok_def subs_get_def subs_has_def callback_calls_def
      example_subscribed_eq example_subscribing_eq example_open_eq example_client_eq)

subsection \<open>Requests and their responses\<close>

lemma deliver_Caller [simp]:
  "deliver (Caller n) (Fulfil v) c = c\<lparr>effects := effects c @ [Resolved n v]\<rparr>"
  "deliver (Caller n) (Reject e) c = c\<lparr>effects := effects c @ [Rejected n e]\<rparr>"
  by (simp_all add: deliver_def)

lemma settle_unsettled:
  "map_of (promises c) p = Some k \<Longrightarrow>
   settle p out c = deliver k out (c\<lparr>promises := AList.delete p (promises c)\<rparr>)"
  by (simp add: settle_def)

lemma map_of_fresh_less:
  "list_all (\<lambda>e. fst e < (n::nat)) xs \<Longrightarrow> map_of xs n = None"
  by (induction xs) auto

lemma map_of_fresh_Suc:
  "list_all (\<lambda>e. fst e \<le> (n::nat)) xs \<Longrightarrow> map_of xs (Suc n) = None"
  by (induction xs) auto

lemma map_of_update_same [simp]: "map_of (AList.update k v al) k = Some v"
  by (simp add: update_conv')

lemma map_of_delete_same [simp]: "map_of (AList.delete k al) k = None"
  by (simp add: delete_conv')

text \<open>
  What a call of \<^verbatim>\<open>subscribe\<close> leaves behind on an open connection: the request is
  sent, its entry is in \<^verbatim>\<open>pendingRequests\<close>, its promise is unsettled and its timer
  is armed with the configured timeout.
\<close>

lemma subscribe_registers:
  assumes "ws_state c = Some OPEN" and "fresh_ids c"
  shows "map_of (pendingRequests (subscribe k ty ps cb c)) (fst (generateRequestId c)) =
           Some (PendingSubscribe ty ps cb (promiseCounter c) (Suc (timerCounter c)))"
    and "map_of (promises (subscribe k ty ps cb c)) (promiseCounter c) = Some k"
    and "map_of (timers (subscribe k ty ps cb c)) (Suc (timerCounter c)) =
           Some (timeout (options c),
                 SubscribeTimeout (fst (generateRequestId c)) (promiseCounter c))"
    and "subscriptions (subscribe k ty ps cb c) = subscriptions c"
    and "\<exists>s. ws c = Some s \<and>
           effects (subscribe k ty ps cb c) =
             effects c @ [Send s ''eth_subscribe'' (Str (type_name ty) # ps)
                            (fst (generateRequestId c))]"
  using assms
  by (auto simp add: subscribe_def subscribe_request_def generateRequestId_def newPromise_def
      setTimeout_def sendRequest_def ws_state_def fresh_ids_def Let_def map_of_fresh_less
      map_of_fresh_Suc map_add_def split: option.splits if_splits)

lemma unsubscribe_registers:
  assumes "ws_state c = Some OPEN" and "fresh_ids c" and "subs_has i (subscriptions c)"
  shows "map_of (pendingRequests (unsubscribe k i c)) (fst (generateRequestId c)) =
           Some (PendingUnsubscribe i (promiseCounter c) (Suc (timerCounter c)))"
    and "map_of (promises (unsubscribe k i c)) (promiseCounter c) = Some k"
    and "map_of (timers (unsubscribe k i c)) (Suc (timerCounter c)) =
           Some (timeout (options c),
                 UnsubscribeTimeout (fst (generateRequestId c)) (promiseCounter c))"
    and "subscriptions (unsubscribe k i c) = subscriptions c"
    and "\<exists>s. ws c = Some s \<and>
           effects (unsubscribe k i c) =
             effects c @ [Send s ''eth_unsubscribe'' [i] (fst (generateRequestId c))]"
  using assms
  by (auto simp add: unsubscribe_def generateRequestId_def newPromise_def
      setTimeout_def sendRequest_def ws_state_def fresh_ids_def Let_def map_of_fresh_less
      map_of_fresh_Suc map_add_def split: option.splits if_splits)

lemma generated_id_defined [simp]: "fst (generateRequestId c) \<noteq> Undefined"
  by (simp add: generateRequestId_def Let_def)

text \<open>The response to a pending request reaches the \<^verbatim>\<open>resolve\<close> closure of its entry.\<close>

lemma response_resolves:
  assumes "msg_method m \<noteq> Str ''eth_subscription''" and "msg_id m \<noteq> Undefined"
    and "map_of (pendingRequests c) (msg_id m) = Some pending"
  shows "handleMessage (Parsed m) c =
           pending_resolve pending m
             ((log ''Received message:'' c)
                \<lparr>pendingRequests := AList.delete (msg_id m) (pendingRequests c)\<rparr>)"
  using assms by (simp add: handleMessage_def Let_def)

text \<open>
  C9. The response to a pending subscribe request that carries no error and a falsy
  result rejects the promise of that request with \<^verbatim>\<open>Invalid subscription ID received\<close>
  (for a call of the application, the effect \<open>Rejected\<close>) and leaves the registry as it
  is; the entry and its timer are gone.
\<close>

theorem subscribe_response_without_id_is_rejected:
  assumes "msg_method m \<noteq> Str ''eth_subscription''" and "msg_id m \<noteq> Undefined"
    and "map_of (pendingRequests c) (msg_id m) = Some (PendingSubscribe ty ps cb p t)"
    and "map_of (promises c) p = Some k"
    and "msg_error m = None" and "\<not> truthy (msg_result m)"
  shows "handleMessage (Parsed m) c =
           deliver k (Reject (Error ''Invalid subscription ID received''))
             ((clearTimeout t
                 ((log ''Received message:'' c)
                    \<lparr>pendingRequests := AList.delete (msg_id m) (pendingRequests c)\<rparr>))
                \<lparr>promises := AList.delete p (promises c)\<rparr>)
         \<and> subscriptions (handleMessage (Parsed m) c) = subscriptions c
         \<and> map_of (pendingRequests (handleMessage (Parsed m) c)) (msg_id m) = None
         \<and> (\<forall>n. k = Caller n \<longrightarrow>
               effects (handleMessage (Parsed m) c) =
                 effects c @ [Rejected n (Error ''Invalid subscription ID received'')])"
proof -
  have "handleMessage (Parsed m) c =
          deliver k (Reject (Error ''Invalid subscription ID received''))
            ((clearTimeout t
                ((log ''Received message:'' c)
                   \<lparr>pendingRequests := AList.delete (msg_id m) (pendingRequests c)\<rparr>))
               \<lparr>promises := AList.delete p (promises c)\<rparr>)"
    using assms
    by (simp add: response_resolves [OF assms(1-3)] settle_unsettled)
  then show ?thesis
    by auto
qed

theorem subscribe_response_without_id_is_rejected_witness:
  "effects (handleMessage (Parsed (example_response (example_request 1) Null)) example_subscribing) =
     effects example_subscribing @ [Rejected 1 (Error ''Invalid subscription ID received'')]
   \<and> subscriptions
       (handleMessage (Parsed (example_response (example_request 1) Null)) example_subscribing) = []"
  using subscribe_response_without_id_is_rejected
    [of "example_response (example_request 1) Null" example_subscribing
        newHeads "[]" "Fn 7 False" 1 2 "Caller 1"]
  by (simp add: example_response_def example_request_def example_subscribing_eq
      example_open_eq example_client_eq)

lemma unsubscribe_response:
  assumes "msg_method m \<noteq> Str ''eth_subscription''" and "msg_id m \<noteq> Undefined"
    and "map_of (pendingRequests c) (msg_id m) = Some (PendingUnsubscribe i p t)"
    and "map_of (promises c) p = Some (Caller n)"
  shows "msg_error m = None \<Longrightarrow>
           subscriptions (handleMessage (Parsed m) c) =
             (if msg_result m = Bool True then subs_delete i (subscriptions c)
              else subscriptions c)
           \<and> effects (handleMessage (Parsed m) c) =
               effects c @ [Resolved n (Bool (msg_result m = Bool True))]"
    and "msg_error m = Some e \<Longrightarrow>
           subscriptions (handleMessage (Parsed m) c) = subscriptions c
           \<and> effects (handleMessage (Parsed m) c) =
               effects c @ [Rejected n (xrpc_error e ''Unsubscribe failed'')]"
  using assms(4)
  by (simp_all add: response_resolves [OF assms(1-3)] settle_unsettled)

text \<open>
  C5. \<^verbatim>\<open>unsubscribe\<close> of an id that is no key of the registry only rejects with the
  not-found error. For a key, when the transport is not open the entry is deleted and the
  call resolves to \<^verbatim>\<open>false\<close>. When it is open, the call sends \<^verbatim>\<open>eth_unsubscribe\<close> with
  the id and keeps the entry; the response to that request, if it carries no error,
  deletes the entry exactly when its result is \<^verbatim>\<open>true\<close> and resolves the call to that
  test, and if it carries an error, keeps the entry and rejects the call.
\<close>

theorem unsubscribe_contract:
  "(\<not> subs_has i (subscriptions c) \<longrightarrow>
      unsubscribe (Caller n) i c = c\<lparr>effects := effects c @ [Rejected n (NotFound i)]\<rparr>)
   \<and> (subs_has i (subscriptions c) \<and> ws_state c \<noteq> Some OPEN \<longrightarrow>
        unsubscribe (Caller n) i c =
          c\<lparr>subscriptions := subs_delete i (subscriptions c),
            effects := effects c @ [Resolved n (Bool False)]\<rparr>
        \<and> \<not> subs_has i (subscriptions (unsubscribe (Caller n) i c)))
   \<and> (subs_has i (subscriptions c) \<and> ws_state c = Some OPEN \<and> fresh_ids c \<longrightarrow>
        subscriptions (unsubscribe (Caller n) i c) = subscriptions c
        \<and> (\<exists>s. ws c = Some s \<and>
              effects (unsubscribe (Caller n) i c) =
                effects c @ [Send s ''eth_unsubscribe'' [i] (fst (generateRequestId c))])
        \<and> (\<forall>m. msg_id m = fst (generateRequestId c)
                 \<and> msg_method m \<noteq> Str ''eth_subscription'' \<longrightarrow>
              (case msg_error m of
                 None \<Rightarrow>
                   subscriptions (handleMessage (Parsed m) (unsubscribe (Caller n) i c)) =
                     (if msg_result m = Bool True then subs_delete i (subscriptions c)
                      else subscriptions c)
                   \<and> effects (handleMessage (Parsed m) (unsubscribe (Caller n) i c)) =
                       effects (unsubscribe (Caller n) i c) @
                         [Resolved n (Bool (msg_result m = Bool True))]
               | Some e \<Rightarrow>
                   subscriptions (handleMessage (Parsed m) (unsubscribe (Caller n) i c)) =
                     subscriptions c
                   \<and> effects (handleMessage (Parsed m) (unsubscribe (Caller n) i c)) =
                       effects (unsubscribe (Caller n) i c) @
                         [Rejected n (xrpc_error e ''Unsubscribe failed'')])))"
proof (intro conjI impI allI)
  assume "\<not> subs_has i (subscriptions c)"
  then show "unsubscribe (Caller n) i c = c\<lparr>effects := effects c @ [Rejected n (NotFound i)]\<rparr>"
    by (simp add: unsubscribe_def)
next
  assume a: "subs_has i (subscriptions c) \<and> ws_state c \<noteq> Some OPEN"
  then show eq: "unsubscribe (Caller n) i c =
      c\<lparr>subscriptions := subs_delete i (subscriptions c),
        effects := effects c @ [Resolved n (Bool False)]\<rparr>"
    by (simp add: unsubscribe_def)
  show "\<not> subs_has i (subscriptions (unsubscribe (Caller n) i c))"
    by (simp add: eq subs_has_def subs_delete_def)
next
  assume a: "subs_has i (subscriptions c) \<and> ws_state c = Some OPEN \<and> fresh_ids c"
  then show "subscriptions (unsubscribe (Caller n) i c) = subscriptions c"
    by (simp add: unsubscribe_registers(4))
  from a show "\<exists>s. ws c = Some s \<and>
      effects (unsubscribe (Caller n) i c) =
        effects c @ [Send s ''eth_unsubscribe'' [i] (fst (generateRequestId c))]"
    by (simp add: unsubscribe_registers(5))
next
  fix m :: msg
  assume a: "subs_has i (subscriptions c) \<and> ws_state c = Some OPEN \<and> fresh_ids c"
    and m: "msg_id m = fst (generateRequestId c) \<and> msg_method m \<noteq> Str ''eth_subscription''"
  let ?c1 = "unsubscribe (Caller n) i c"
  have pend: "map_of (pendingRequests ?c1) (msg_id m) =
      Some (PendingUnsubscribe i (promiseCounter c) (Suc (timerCounter c)))"
    using a m by (simp add: unsubscribe_registers(1))
  have prom: "map_of (promises ?c1) (promiseCounter c) = Some (Caller n)"
    using a by (simp add: unsubscribe_registers(2))
  have subs: "subscriptions ?c1 = subscriptions c"
    using a by (simp add: unsubscribe_registers(4))
  have nopush: "msg_method m \<noteq> Str ''eth_subscription''" and hasid: "msg_id m \<noteq> Undefined"
    using m by simp_all
  show "case msg_error m of
      None \<Rightarrow>
        subscriptions (handleMessage (Parsed m) ?c1) =
          (if msg_result m = Bool True then subs_delete i (subscriptions c)
           else subscriptions c)
        \<and> effects (handleMessage (Parsed m) ?c1) =
            effects ?c1 @ [Resolved n (Bool (msg_result m = Bool True))]
    | Some e \<Rightarrow>
        subscriptions (handleMessage (Parsed m) ?c1) = subscriptions c
        \<and> effects (handleMessage (Parsed m) ?c1) =
            effects ?c1 @ [Rejected n (xrpc_error e ''Unsubscribe failed'')]"
  proof (cases "msg_error m")
    case None
    then show ?thesis
      using unsubscribe_response(1) [OF nopush hasid pend prom] subs by simp
  next
    case (Some e)
    then show ?thesis
      using unsubscribe_response(2) [OF nopush hasid pend prom] subs by simp
  qed
qed

theorem unsubscribe_contract_witness:
  "unsubscribe (Caller 2) (Str ''0xdef'') example_subscribed =
     example_subscribed\<lparr>effects := effects example_subscribed @
                                     [Rejected 2 (NotFound (Str ''0xdef''))]\<rparr>
   \<and> subscriptions
       (handleMessage (Parsed (example_response (example_request 2) (Bool True)))
          (unsubscribe (Caller 2) (Str ''0xabc'') example_subscribed)) = []
   \<and> unsubscribe (Caller 2) (Str ''0xabc'') (set_readyState 0 CLOSED example_subscribed) =
       (set_readyState 0 CLOSED example_subscribed)
         \<lparr>subscriptions := [],
          effects := effects example_subscribed @ [Resolved 2 (Bool False)]\<rparr>"
proof -
  let ?c = example_subscribed
  have open_: "ws_state ?c = Some OPEN" and fresh: "fresh_ids ?c"
    and has: "subs_has (Str ''0xabc'') (subscriptions ?c)"
    and hasnt: "\<not> subs_has (Str ''0xdef'') (subscriptions ?c)"
    and rid: "fst (generateRequestId ?c) = example_request 2"
    by (simp_all add: ws_state_def fresh_ids_def subs_has_def generateRequestId_def
        example_request_def numeral_2_eq_2 example_subscribed_eq example_subscribing_eq example_open_eq
        example_client_eq)
  have closed: "ws_state (set_readyState 0 CLOSED ?c) \<noteq> Some OPEN"
    and has': "subs_has (Str ''0xabc'') (subscriptions (set_readyState 0 CLOSED ?c))"
    and del: "subs_delete (Str ''0xabc'') (subscriptions ?c) = []"
    by (simp_all add: ws_state_def set_readyState_def subs_has_def subs_delete_def
        example_subscribed_eq example_subscribing_eq example_open_eq example_client_eq)
  have m: "msg_id (example_response (example_request 2) (Bool True)) = example_request 2"
    "msg_method (example_response (example_request 2) (Bool True)) \<noteq> Str ''eth_subscription''"
    "msg_error (example_response (example_request 2) (Bool True)) = None"
    "msg_result (example_response (example_request 2) (Bool True)) = Bool True"
    by (simp_all add: example_response_def)
  have a: "unsubscribe (Caller 2) (Str ''0xdef'') ?c =
      ?c\<lparr>effects := effects ?c @ [Rejected 2 (NotFound (Str ''0xdef''))]\<rparr>"
    using unsubscribe_contract [of "Str ''0xdef''" ?c 2] hasnt by simp
  have b: "subscriptions
       (handleMessage (Parsed (example_response (example_request 2) (Bool True)))
          (unsubscribe (Caller 2) (Str ''0xabc'') ?c)) = []"
    using unsubscribe_contract [of "Str ''0xabc''" ?c 2] open_ fresh has rid m del
    by (auto split: option.splits)
  have c: "unsubscribe (Caller 2) (Str ''0xabc'') (set_readyState 0 CLOSED ?c) =
       (set_readyState 0 CLOSED ?c)
         \<lparr>subscriptions := [], effects := effects ?c @ [Resolved 2 (Bool False)]\<rparr>"
    using unsubscribe_contract [of "Str ''0xabc''" "set_readyState 0 CLOSED ?c" 2] closed has' del
    by (simp add: set_readyState_def subs_delete_def)
  from a b c show ?thesis by simp
qed

subsection \<open>Request timeouts\<close>

lemma request_timer_fires:
  assumes "map_of (promises c) p = Some (Caller n)"
  shows "map_of (timers c) t = Some (d, SubscribeTimeout rid p) \<Longrightarrow>
           step (Timer t) c =
             Some ((clearTimeout t c)
                     \<lparr>pendingRequests := AList.delete rid (pendingRequests c),
                      promises := AList.delete p (promises c),
                      effects := effects c @ [Rejected n (Error ''Subscribe request timeout'')]\<rparr>)"
    and "map_of (timers c) t = Some (d, UnsubscribeTimeout rid p) \<Longrightarrow>
           step (Timer t) c =
             Some ((clearTimeout t c)
                     \<lparr>pendingRequests := AList.delete rid (pendingRequests c),
                      promises := AList.delete p (promises c),
                      effects := effects c @ [Rejected n (Error ''Unsubscribe request timeout'')]\<rparr>)"
  using assms by (simp_all add: settle_unsettled)

lemma timer_not_armed: "map_of (timers c) t = None \<Longrightarrow> step (Timer t) c = None"
  by simp

text \<open>
  C4. \<^verbatim>\<open>subscribe\<close> and \<^verbatim>\<open>unsubscribe\<close> arm, for the request they send, a timer whose
  delay is the configured \<^verbatim>\<open>timeout\<close>. In any state in which such a timer is still
  armed and the promise of its request unsettled (no response has resolved the request and
  no close has rejected it), the timer firing rejects the caller with the timeout error,
  after which the request id is no key of \<^verbatim>\<open>pendingRequests\<close> and the timer is not
  armed, so it cannot fire again.
\<close>

theorem request_times_out_once:
  "(ws_state c = Some OPEN \<and> fresh_ids c \<longrightarrow>
      map_of (timers (subscribe (Caller n) ty ps cb c)) (Suc (timerCounter c)) =
        Some (timeout (options c), SubscribeTimeout (fst (generateRequestId c)) (promiseCounter c))
      \<and> map_of (promises (subscribe (Caller n) ty ps cb c)) (promiseCounter c) = Some (Caller n)
      \<and> map_of (pendingRequests (subscribe (Caller n) ty ps cb c)) (fst (generateRequestId c)) \<noteq> None)
   \<and> (ws_state c = Some OPEN \<and> fresh_ids c \<and> subs_has i (subscriptions c) \<longrightarrow>
      map_of (timers (unsubscribe (Caller n) i c)) (Suc (timerCounter c)) =
        Some (timeout (options c), UnsubscribeTimeout (fst (generateRequestId c)) (promiseCounter c))
      \<and> map_of (promises (unsubscribe (Caller n) i c)) (promiseCounter c) = Some (Caller n)
      \<and> map_of (pendingRequests (unsubscribe (Caller n) i c)) (fst (generateRequestId c)) \<noteq> None)
   \<and> (map_of (promises c) p = Some (Caller n)
        \<and> (map_of (timers c) t = Some (d, SubscribeTimeout rid p) \<and> e = ''Subscribe request timeout''
            \<or> map_of (timers c) t = Some (d, UnsubscribeTimeout rid p)
               \<and> e = ''Unsubscribe request timeout'') \<longrightarrow>
      (\<exists>c2. step (Timer t) c = Some c2
            \<and> effects c2 = effects c @ [Rejected n (Error e)]
            \<and> map_of (pendingRequests c2) rid = None
            \<and> map_of (timers c2) t = None
            \<and> step (Timer t) c2 = None))"
proof (intro conjI impI)
  assume "ws_state c = Some OPEN \<and> fresh_ids c"
  then show "map_of (timers (subscribe (Caller n) ty ps cb c)) (Suc (timerCounter c)) =
      Some (timeout (options c), SubscribeTimeout (fst (generateRequestId c)) (promiseCounter c))"
    and "map_of (promises (subscribe (Caller n) ty ps cb c)) (promiseCounter c) = Some (Caller n)"
    and "map_of (pendingRequests (subscribe (Caller n) ty ps cb c)) (fst (generateRequestId c)) \<noteq> None"
    by (simp_all add: subscribe_registers)
next
  assume "ws_state c = Some OPEN \<and> fresh_ids c \<and> subs_has i (subscriptions c)"
  then show "map_of (timers (unsubscribe (Caller n) i c)) (Suc (timerCounter c)) =
      Some (timeout (options c), UnsubscribeTimeout (fst (generateRequestId c)) (promiseCounter c))"
    and "map_of (promises (unsubscribe (Caller n) i c)) (promiseCounter c) = Some (Caller n)"
    and "map_of (pendingRequests (unsubscribe (Caller n) i c)) (fst (generateRequestId c)) \<noteq> None"
    by (simp_all add: unsubscribe_registers)
next
  assume a: "map_of (promises c) p = Some (Caller n)
    \<and> (map_of (timers c) t = Some (d, SubscribeTimeout rid p) \<and> e = ''Subscribe request timeout''
        \<or> map_of (timers c) t = Some (d, UnsubscribeTimeout rid p)
           \<and> e = ''Unsubscribe request timeout'')"
  then have p: "map_of (promises c) p = Some (Caller n)"
    by simp
  let ?c2 = "(clearTimeout t c)
               \<lparr>pendingRequests := AList.delete rid (pendingRequests c),
                promises := AList.delete p (promises c),
                effects := effects c @ [Rejected n (Error e)]\<rparr>"
  have "step (Timer t) c = Some ?c2"
    using a request_timer_fires [OF p] by auto
  moreover have "map_of (timers ?c2) t = None"
    by (simp add: clearTimeout_def)
  moreover from this have "step (Timer t) ?c2 = None"
    by (rule timer_not_armed)
  ultimately show "\<exists>c2. step (Timer t) c = Some c2
      \<and> effects c2 = effects c @ [Rejected n (Error e)]
      \<and> map_of (pendingRequests c2) rid = None
      \<and> map_of (timers c2) t = None
      \<and> step (Timer t) c2 = None"
    by simp
qed

theorem request_times_out_once_witness:
  "map_of (timers example_subscribing) 2 =
     Some (10000, SubscribeTimeout (example_request 1) 1)
   \<and> (\<exists>c2. step (Timer 2) example_subscribing = Some c2
         \<and> effects c2 =
             effects example_subscribing @ [Rejected 1 (Error ''Subscribe request timeout'')]
         \<and> map_of (pendingRequests c2) (example_request 1) = None
         \<and> map_of (timers c2) 2 = None
         \<and> step (Timer 2) c2 = None)"
proof -
  have armed: "map_of (timers example_subscribing) 2 =
      Some (10000, SubscribeTimeout (example_request 1) 1)"
    and unsettled: "map_of (promises example_subscribing) 1 = Some (Caller 1)"
    by (simp_all add: example_subscribing_eq example_open_eq example_client_eq)
  show ?thesis
    using request_times_out_once
      [of example_subscribing 1 newHeads "[]" "Fn 7 False" Undefined 1 2 10000
          "example_request 1" "''Subscribe request timeout''"]
      armed unsettled
    by simp
qed

subsection \<open>connect\<close>

lemma example_connecting_eq:
  "example_connecting =
     example_client
       \<lparr>ws := Some 0,
        sockets := [\<lparr>readyState = CONNECTING, connectPromise = 0, connectionTimeout = 1\<rparr>],
        timers := [(1, 10000, ConnectionTimeout 0)],
        timerCounter := 1, promises := [(0, Caller 0)], promiseCounter := 1,
        effects := [Constructed 0 ''wss://eth-mainnet.xrpc.pro?apiKey=key'']\<rparr>"
  by (simp add: example_connecting_def example_client_eq after_def connect_def ws_state_def
      newPromise_def buildWebSocketUrl_def log_def setTimeout_def Let_def)

lemma connect_waits:
  assumes "ws_state c = Some CONNECTING" and "fresh_ids c"
  shows "ws (connect k c) = ws c" and "sockets (connect k c) = sockets c"
    and "effects (connect k c) = effects c"
    and "timers (connect k c) =
           timers c @ [(Suc (timerCounter c), 100, CheckInterval (promiseCounter c)),
                       (Suc (Suc (timerCounter c)), timeout (options c),
                        PollTimeout (Suc (timerCounter c)) (promiseCounter c))]"
    and "map_of (promises (connect k c)) (promiseCounter c) = Some k"
  using assms
  by (simp_all add: connect_def newPromise_def setInterval_def setTimeout_def Let_def
      fresh_ids_def map_of_fresh_less map_add_def)

text \<open>
  C8, as the code has it. \<^verbatim>\<open>connect\<close> on an open transport resolves at once and creates
  nothing. On a connecting transport it creates no transport either: it arms a poll every
  100 ms and a timer with the configured timeout. A poll that finds the transport open
  resolves the call, a poll that finds it closed rejects it with \<^verbatim>\<open>Connection failed\<close>,
  any other poll changes nothing, and the timer rejects it with \<^verbatim>\<open>Connection timeout\<close>.
\<close>

theorem connect_is_idempotent:
  "(ws_state c = Some OPEN \<longrightarrow>
      connect (Caller n) c =
        (log ''Already connected'' c)\<lparr>effects := effects c @ [Resolved n Undefined]\<rparr>)
   \<and> (ws_state c = Some CONNECTING \<and> fresh_ids c \<longrightarrow>
        ws (connect (Caller n) c) = ws c
        \<and> sockets (connect (Caller n) c) = sockets c
        \<and> effects (connect (Caller n) c) = effects c
        \<and> timers (connect (Caller n) c) =
            timers c @ [(Suc (timerCounter c), 100, CheckInterval (promiseCounter c)),
                        (Suc (Suc (timerCounter c)), timeout (options c),
                         PollTimeout (Suc (timerCounter c)) (promiseCounter c))]
        \<and> map_of (promises (connect (Caller n) c)) (promiseCounter c) = Some (Caller n))
   \<and> (map_of (promises c) p = Some (Caller n) \<and> map_of (timers c) iv = Some (d, CheckInterval p) \<longrightarrow>
        (ws_state c = Some OPEN \<longrightarrow>
           map_option effects (step (Timer iv) c) = Some (effects c @ [Resolved n Undefined]))
        \<and> (ws_state c = Some CLOSED \<longrightarrow>
             map_option effects (step (Timer iv) c) =
               Some (effects c @ [Rejected n (Error ''Connection failed'')]))
        \<and> (ws_state c \<noteq> Some OPEN \<and> ws_state c \<noteq> Some CLOSED \<longrightarrow>
             step (Timer iv) c = Some c))
   \<and> (map_of (promises c) p = Some (Caller n) \<and> map_of (timers c) t = Some (d, PollTimeout iv p) \<longrightarrow>
        map_option effects (step (Timer t) c) =
          Some (effects c @ [Rejected n (Error ''Connection timeout'')]))"
proof (intro conjI impI)
  assume "ws_state c = Some OPEN"
  then show "connect (Caller n) c =
      (log ''Already connected'' c)\<lparr>effects := effects c @ [Resolved n Undefined]\<rparr>"
    by (simp add: connect_def)
next
  assume a: "ws_state c = Some CONNECTING \<and> fresh_ids c"
  then show "ws (connect (Caller n) c) = ws c"
    and "sockets (connect (Caller n) c) = sockets c"
    and "effects (connect (Caller n) c) = effects c"
    and "timers (connect (Caller n) c) =
           timers c @ [(Suc (timerCounter c), 100, CheckInterval (promiseCounter c)),
                       (Suc (Suc (timerCounter c)), timeout (options c),
                        PollTimeout (Suc (timerCounter c)) (promiseCounter c))]"
    and "map_of (promises (connect (Caller n) c)) (promiseCounter c) = Some (Caller n)"
    by (simp_all add: connect_waits)
next
  assume a: "map_of (promises c) p = Some (Caller n) \<and> map_of (timers c) iv = Some (d, CheckInterval p)"
  show "map_option effects (step (Timer iv) c) = Some (effects c @ [Resolved n Undefined])"
    if "ws_state c = Some OPEN"
    using a that by (simp add: settle_unsettled)
  show "map_option effects (step (Timer iv) c) =
      Some (effects c @ [Rejected n (Error ''Connection failed'')])"
    if "ws_state c = Some CLOSED"
    using a that by (simp add: settle_unsettled)
  show "step (Timer iv) c = Some c"
    if "ws_state c \<noteq> Some OPEN \<and> ws_state c \<noteq> Some CLOSED"
    using a that by simp
next
  assume "map_of (promises c) p = Some (Caller n) \<and> map_of (timers c) t = Some (d, PollTimeout iv p)"
  then show "map_option effects (step (Timer t) c) =
      Some (effects c @ [Rejected n (Error ''Connection timeout'')])"
    by (simp add: settle_unsettled)
qed

theorem connect_is_idempotent_witness:
  "connect (Caller 1) example_open = example_open\<lparr>effects := effects example_open @ [Resolved 1 Undefined]\<rparr>
   \<and> sockets (connect (Caller 1) example_connecting) = sockets example_connecting
   \<and> map_option effects (step (Timer 3) (connect (Caller 1) example_connecting)) =
       Some (effects example_connecting @ [Rejected 1 (Error ''Connection timeout'')])"
proof -
  have o: "ws_state example_open = Some OPEN"
    by (simp add: ws_state_def example_open_eq example_client_eq)
  have c: "ws_state example_connecting = Some CONNECTING" and f: "fresh_ids example_connecting"
    and n: "timerCounter example_connecting = 1" "promiseCounter example_connecting = 1"
      "timeout (options example_connecting) = 10000"
    by (simp_all add: ws_state_def fresh_ids_def example_connecting_eq example_client_eq)
  let ?c1 = "connect (Caller 1) example_connecting"
  have w: "sockets ?c1 = sockets example_connecting" "effects ?c1 = effects example_connecting"
    "map_of (promises ?c1) 1 = Some (Caller 1)"
    "map_of (timers ?c1) 3 = Some (10000, PollTimeout 2 1)"
    using connect_is_idempotent [of example_connecting 1] c f n
    by (simp_all add: example_connecting_eq example_client_eq numeral_3_eq_3 numeral_2_eq_2)
  have "connect (Caller 1) example_open =
      example_open\<lparr>effects := effects example_open @ [Resolved 1 Undefined]\<rparr>"
    using connect_is_idempotent [of example_open 1] o
    by (simp add: log_def example_open_eq example_client_eq)
  moreover have "map_option effects (step (Timer 3) ?c1) =
      Some (effects example_connecting @ [Rejected 1 (Error ''Connection timeout'')])"
    using connect_is_idempotent [where c = ?c1 and n = 1 and p = 1 and t = 3 and d = 10000 and iv = 2] w
    by simp
  ultimately show ?thesis
    using w by simp
qed

text \<open>
  C8 as stated fails: a second \<^verbatim>\<open>connect\<close> during an attempt that then fails is neither
  resolved nor rejected with a timeout error; the next poll (timer 2) rejects it with
  \<^verbatim>\<open>Connection failed\<close> while its timeout (timer 3) is still armed.
\<close>

theorem connect_waiter_rejected_without_timeout_counterexample:
  "map_option (\<lambda>c. (effects c, map_of (timers c) 3))
     (run [Connect 0, Connect 1, WsError 0, WsClose 0 (Num 1006) NoReason, Timer 2]
        example_client) =
   Some ([Constructed 0 ''wss://eth-mainnet.xrpc.pro?apiKey=key'',
          Emitted (OnError (Error ''WebSocket connection error'')),
          Rejected 0 (Error ''WebSocket connection error''),
          Emitted (OnClose (Num 1006) []),
          Emitted (OnReconnect 1),
          Rejected 1 (Error ''Connection failed'')],
         Some (10000, PollTimeout 2 1))"
  by (simp add: example_client_eq connect_def ws_state_def newPromise_def buildWebSocketUrl_def
      log_def setTimeout_def setInterval_def socket_in_def set_readyState_def handleError_def
      handleClose_def scheduleReconnect_def clearTimeout_def emit_def settle_def deliver_def
      Let_def)

subsection \<open>disconnect\<close>

text \<open>
  C1 on the code. A subscribe request is in flight on an open connection with no
  subscriptions when \<^verbatim>\<open>disconnect()\<close> is called. \<^verbatim>\<open>disconnect\<close> resolves (caller 2) after
  closing the transport, but it empties \<^verbatim>\<open>pendingRequests\<close> without calling the
  \<^verbatim>\<open>reject\<close> closures and without clearing their timers: when the transport then signals
  its closure, \<^verbatim>\<open>handleClose\<close> finds no entry to reject, so the subscribe caller (caller 1)
  is still waiting, its promise unsettled and its timer armed. It fails only when that
  timer fires, and then with the timeout error, not with \<^verbatim>\<open>WebSocket connection closed\<close>.
\<close>

theorem disconnect_leaves_request_unsettled:
  "map_option (\<lambda>c. (effects c, pendingRequests c, promises c, timers c))
     (run [Subscribe 1 newHeads [] (Fn 7 False), Disconnect 2, Microtask,
           WsClose 0 (Num 1000) (ReasonString ''Client disconnect'')] example_open) =
   Some (effects example_open @
           [Send 0 ''eth_subscribe'' [Str ''newHeads''] (example_request 1),
            Close 0 [Num 1000, Str ''Client disconnect''],
            Resolved 2 Undefined,
            Emitted (OnClose (Num 1000) ''Client disconnect'')],
         [], [(1, Caller 1)], [(2, 10000, SubscribeTimeout (example_request 1) 1)])
   \<and> map_option effects
       (run [Subscribe 1 newHeads [] (Fn 7 False), Disconnect 2, Microtask,
             WsClose 0 (Num 1000) (ReasonString ''Client disconnect''), Timer 2] example_open) =
     Some (effects example_open @
             [Send 0 ''eth_subscribe'' [Str ''newHeads''] (example_request 1),
              Close 0 [Num 1000, Str ''Client disconnect''],
              Resolved 2 Undefined,
              Emitted (OnClose (Num 1000) ''Client disconnect''),
              Rejected 1 (Error ''Subscribe request timeout'')])"
  by (simp add: example_open_eq example_client_eq example_request_def
      subscribe_def subscribe_request_def ws_state_def generateRequestId_def newPromise_def
      setTimeout_def sendRequest_def log_def disconnect_def disconnect_finish_def ws_close_def
      set_readyState_def socket_in_def handleClose_def clearTimeout_def emit_def settle_def
      deliver_def Let_def)

subsection \<open>Reconnection\<close>

lemma run_append:
  "run (es1 @ es2) c = (case run es1 c of None \<Rightarrow> None | Some c1 \<Rightarrow> run es2 c1)"
  by (induction es1 arbitrary: c) (simp_all split: option.splits)

lemma reconnect_events_append [simp]:
  "reconnect_events (xs @ ys) = reconnect_events xs @ reconnect_events ys"
  by (simp add: reconnect_events_def)

lemma reconnect_events_simps [simp]:
  "reconnect_events [] = []"
  "reconnect_events (e # es) = reconnect_event e @ reconnect_events es"
  by (simp_all add: reconnect_events_def)

lemma emit_effects_no_listener:
  "eventListeners c (kind_of ev) = [] \<Longrightarrow> effects (emit ev c) = effects c @ [Emitted ev]"
  by (simp add: emit_def)

lemma emit_console_no_listener:
  "eventListeners c (kind_of ev) = [] \<Longrightarrow> console (emit ev c) = console c"
  by (simp add: emit_def)

text \<open>
  The first half of the scenario, for a client constructed with
  \<^verbatim>\<open>maxReconnectAttempts: 2\<close>: after the unexpected closure and the first failed attempt,
  two \<^verbatim>\<open>reconnect\<close> events have fired and the second reconnect timer is armed.
\<close>

lemma first_failed_reconnect:
  assumes "constructor opts rt = Inr c0"
    and "opt_maxReconnectAttempts opts = Some 2"
    and "opt_autoReconnect opts \<noteq> Some False"
    and "rt_websocketImpl rt"
  shows "\<exists>c. run ([Connect 0, WsOpen 0, WsClose 0 (Num 1006) NoReason, Timer 2] @ failed_open f1 1 3) c0
               = Some c
           \<and> awaiting_second_attempt c
           \<and> options c = options c0
           \<and> reconnect_events (effects c) = [1, 2]"
proof -
  have auto: "default_to True (opt_autoReconnect opts)"
    using assms(3) by (cases "opt_autoReconnect opts") (simp_all add: default_to_def)
  have c0: "c0 = \<lparr>
        options = \<lparr>
          network = opt_network opts,
          apiKey = opt_apiKey opts,
          timeout = default_to 10000 (opt_timeout opts),
          debug = default_to False (opt_debug opts),
          autoReconnect = True,
          reconnectDelay = default_to 5000 (opt_reconnectDelay opts),
          maxReconnectAttempts = 2 \<rparr>,
        ws = None, subscriptions = [], subscriptionSlots = 0, pendingRequests = [],
        requestIdCounter = 0, reconnectAttempts = 0, reconnectTimeoutId = None,
        isManualClose = False, eventListeners = (\<lambda>ev. []), websocketImpl = True,
        dateNow = rt_dateNow rt, mathRandom = rt_mathRandom rt, sockets = [], timers = [],
        timerCounter = 0, promises = [], promiseCounter = 0, allSettled = [],
        microtasks = [], effects = [], console = [] \<rparr>"
    using assms auto
    by (auto simp add: constructor_def default_to_def split: if_splits)
  show ?thesis
    unfolding c0
    by (cases f1;
        simp add: awaiting_second_attempt_def connect_def ws_state_def newPromise_def setTimeout_def
          socket_in_def set_readyState_def handleOpen_def handleError_def handleClose_def
          scheduleReconnect_def clearTimeout_def settle_def deliver_def ws_close_def
          emit_effects_no_listener Let_def)
qed

text \<open>The second half: the attempt that the second reconnect timer starts fails as well.\<close>

lemma second_failed_reconnect:
  assumes "awaiting_second_attempt c" and "autoReconnect (options c)"
    and "maxReconnectAttempts (options c) = 2"
  shows "\<exists>c2. run ([Timer 4] @ failed_open f2 2 5) c = Some c2
            \<and> reconnect_events (effects c2) = reconnect_events (effects c)
            \<and> reconnectAttempts c2 = 2 \<and> timers c2 = [] \<and> microtasks c2 = []
            \<and> getState c2 = ''closed'' \<and> options c2 = options c"
proof -
  obtain s0 s1 where s: "sockets c = [s0, s1]"
    using assms(1) by (auto simp add: awaiting_second_attempt_def map_eq_Cons_conv)
  obtain d where d: "timers c = [(4, d, ReconnectTimeout)]"
    using assms(1) by (auto simp add: awaiting_second_attempt_def map_eq_Cons_conv)
  have fresh: "map_of (promises c) (promiseCounter c) = None"
    using assms(1) by (simp add: awaiting_second_attempt_def map_of_fresh_less)
  have facts: "timerCounter c = 4" "ws c = Some 1" "readyState s0 = CLOSED" "readyState s1 = CLOSED"
    "microtasks c = []" "pendingRequests c = []" "eventListeners c = (\<lambda>ev. [])"
    "websocketImpl c" "reconnectAttempts c = 2"
    using assms(1) s by (simp_all add: awaiting_second_attempt_def)
  show ?thesis
    using assms(2,3) s d fresh facts
    by (cases f2;
        simp add: connect_def ws_state_def newPromise_def setTimeout_def
          socket_in_def set_readyState_def handleError_def handleClose_def
          scheduleReconnect_def clearTimeout_def settle_def deliver_def ws_close_def
          emit_effects_no_listener getState_def map_add_def Let_def)
qed

subsection \<open>After the last attempt\<close>

lemma quiet_refl [simp]: "quiet c c"
  by (simp add: quiet_def)

lemma quiet_trans: "quiet c c1 \<Longrightarrow> quiet c1 c2 \<Longrightarrow> quiet c c2"
  by (simp add: quiet_def)

lemma quiet_gave_up: "gave_up c \<Longrightarrow> quiet c c' \<Longrightarrow> gave_up c'"
  by (auto simp add: gave_up_def quiet_def)

lemma list_ex_delete: "list_ex P (AList.delete k xs) \<Longrightarrow> list_ex P xs"
  by (induction xs) (auto split: if_splits)

lemma reconnect_events_listeners [simp]:
  "reconnect_events (map (\<lambda>l. Called l (Event ev)) ls) = []"
  by (induction ls) simp_all

lemma reconnect_events_deliver [simp]:
  "reconnect_events (effects (deliver k out c)) = reconnect_events (effects c)"
  by (cases k; cases out) (simp_all add: deliver_def)

lemma reconnect_events_settle [simp]:
  "reconnect_events (effects (settle p out c)) = reconnect_events (effects c)"
  by (simp add: settle_def split: option.splits)

lemma reconnect_events_emit [simp]:
  "kind_of ev \<noteq> EvReconnect \<Longrightarrow>
   reconnect_events (effects (emit ev c)) = reconnect_events (effects c)"
  by (cases ev) (simp_all add: emit_def call_listeners_effects)

lemma timers_clearTimeout [simp]: "timers (clearTimeout t c) = AList.delete t (timers c)"
  by (simp add: clearTimeout_def)

lemma quiet_clearTimeout [simp]: "quiet c (clearTimeout t c)"
  by (auto simp add: quiet_def dest: list_ex_delete)

lemma quiet_settle [simp]: "quiet c (settle p out c)"
  by (simp add: quiet_def)

lemma quiet_deliver [simp]: "quiet c (deliver k out c)"
  by (simp add: quiet_def)

lemma quiet_log [simp]: "quiet c (log text c)"
  by (simp add: quiet_def)

lemma quiet_emit: "kind_of ev \<noteq> EvReconnect \<Longrightarrow> quiet c (emit ev c)"
  by (simp add: quiet_def)

lemma quiet_fold: "(\<And>x c. quiet c (f x c)) \<Longrightarrow> quiet c (fold f xs c)"
proof (induction xs arbitrary: c)
  case Nil
  then show ?case by simp
next
  case (Cons x xs)
  have "quiet c (f x c)" by (rule Cons.prems)
  moreover have "quiet (f x c) (fold f xs (f x c))" by (rule Cons.IH) (rule Cons.prems)
  ultimately show ?case by (simp add: quiet_trans)
qed

lemma quiet_connect: "quiet c (connect k c)"
  by (auto simp add: quiet_def connect_def newPromise_def setInterval_def setTimeout_def Let_def)

lemma quiet_subscribe_request: "quiet c (subscribe_request k ty ps cb c)"
  by (auto simp add: quiet_def subscribe_request_def generateRequestId_def newPromise_def
      setTimeout_def sendRequest_def Let_def split: option.splits)

lemma quiet_subscribe: "quiet c (subscribe k ty ps cb c)"
  by (simp add: subscribe_def quiet_connect quiet_subscribe_request)

lemma quiet_unsubscribe: "quiet c (unsubscribe k i c)"
  by (auto simp add: quiet_def unsubscribe_def generateRequestId_def newPromise_def
      setTimeout_def sendRequest_def Let_def split: option.splits)

lemma quiet_disconnect_finish: "quiet c (disconnect_finish p c)"
  by (auto simp add: quiet_def disconnect_finish_def ws_close_def set_readyState_def Let_def
      split: option.splits)

lemma quiet_disconnect: "quiet c (disconnect k c)"
proof -
  let ?c2 = "case reconnectTimeoutId (c\<lparr>isManualClose := True\<rparr>) of
               None \<Rightarrow> c\<lparr>isManualClose := True\<rparr>
             | Some t \<Rightarrow> (clearTimeout t (c\<lparr>isManualClose := True\<rparr>))\<lparr>reconnectTimeoutId := None\<rparr>"
  let ?c3 = "snd (newPromise k ?c2)"
  let ?ids = "map (\<lambda>e. sub_id (snd e)) (subscriptions ?c3)"
  let ?c4 = "fold (\<lambda>subscriptionId. unsubscribe (AllSettledItem (fst (newPromise k ?c2))) subscriptionId)
               ?ids ?c3"
  have "quiet c ?c3"
    by (auto simp add: quiet_def newPromise_def Let_def split: option.splits dest: list_ex_delete)
  moreover have "quiet ?c3 ?c4"
    by (rule quiet_fold) (rule quiet_unsubscribe)
  ultimately have "quiet c ?c4"
    by (rule quiet_trans)
  moreover have "quiet ?c4 (disconnect k c)"
    by (simp add: quiet_def disconnect_def Let_def split_def)
  ultimately show ?thesis
    by (rule quiet_trans)
qed

lemma quiet_pending_resolve: "quiet c (pending_resolve pending m c)"
  by (cases pending)
    (auto simp add: quiet_def subs_set_def Let_def split: option.splits dest: list_ex_delete)

lemma quiet_pending_reject: "quiet c (pending_reject pending e c)"
  by (cases pending) (auto simp add: quiet_def dest: list_ex_delete)

lemma quiet_handleMessage: "quiet c (handleMessage d c)"
proof (cases d)
  case Unparseable
  then show ?thesis
    by (simp add: handleMessage_def handleMessage_catch_def quiet_def)
next
  case ParsedNull
  then show ?thesis
    by (simp add: handleMessage_def handleMessage_catch_def quiet_def)
next
  case (Parsed m)
  have "quiet c (pending_resolve pending m
          ((log ''Received message:'' c)
             \<lparr>pendingRequests := AList.delete (msg_id m) (pendingRequests (log ''Received message:'' c))\<rparr>))"
    for pending
    by (rule quiet_trans [OF _ quiet_pending_resolve]) (simp add: quiet_def)
  then show ?thesis
    using Parsed
    by (auto simp add: handleMessage_def handleMessage_catch_def Let_def split: option.splits)
      (simp_all add: quiet_def)
qed

lemma quiet_replay_next: "quiet c (replay_next idx c)"
  by (simp add: replay_next_def quiet_subscribe split: option.splits prod.splits)

lemma quiet_handleError: "quiet c (handleError s c)"
  by (auto simp add: quiet_def handleError_def Let_def dest: list_ex_delete)

lemma quiet_scheduleReconnect: "gave_up c \<Longrightarrow> quiet c (scheduleReconnect c)"
  by (simp add: gave_up_def scheduleReconnect_def)

lemma quiet_reject_pending: "quiet c (reject_pending entry c)"
proof -
  have "quiet c (pending_reject (snd entry) (Error ''WebSocket connection closed'')
                   (clearTimeout (timeoutId (snd entry)) c))"
    by (rule quiet_trans [OF quiet_clearTimeout quiet_pending_reject])
  then show ?thesis
    by (simp add: reject_pending_def Let_def quiet_def)
qed

lemma quiet_handleClose: "gave_up c \<Longrightarrow> quiet c (handleClose s code reason c)"
proof -
  assume g: "gave_up c"
  let ?closeCode = "case code of Num n \<Rightarrow> Num n | _ \<Rightarrow> Num 1000"
  let ?closeReason = "case reason of ReasonString r \<Rightarrow> r | ReasonBuffer r \<Rightarrow> r | NoReason \<Rightarrow> []"
  let ?c3 = "emit (OnClose ?closeCode ?closeReason)
               (log ''WebSocket closed'' (clearTimeout (connectionTimeout (sockets c ! s)) c))"
  let ?c4 = "fold reject_pending (pendingRequests ?c3) ?c3"
  have "quiet c ?c3"
    by (auto simp add: quiet_def dest: list_ex_delete)
  moreover have "quiet ?c3 ?c4"
    by (rule quiet_fold) (rule quiet_reject_pending)
  ultimately have c4: "quiet c ?c4"
    by (rule quiet_trans)
  then have "gave_up ?c4"
    using g by (simp add: quiet_gave_up)
  then have "quiet ?c4 (scheduleReconnect ?c4)"
    by (rule quiet_scheduleReconnect)
  then have "quiet c (scheduleReconnect ?c4)"
    using c4 by (simp add: quiet_trans)
  then show ?thesis
    using c4 by (simp add: handleClose_def Let_def)
qed

lemma quiet_fire: "quiet c (fire t a c)"
proof (cases a)
  case ReconnectTimeout
  have "quiet c (c\<lparr>isManualClose := False\<rparr>)"
    by (simp add: quiet_def)
  then show ?thesis
    using ReconnectTimeout quiet_connect [of "c\<lparr>isManualClose := False\<rparr>" ReconnectAwaitConnect]
    by (simp add: quiet_trans)
qed (auto simp add: quiet_def ws_close_def set_readyState_def Let_def split: option.splits
    dest: list_ex_delete)

lemma quiet_resume: "gave_up c \<Longrightarrow> quiet c (resume k out c)"
proof (cases k)
  case (Caller n)
  then show ?thesis by simp
next
  case (SubscribeAwaitConnect ty ps cb k')
  then show ?thesis by (cases out) (simp_all add: quiet_subscribe_request)
next
  case ReconnectAwaitConnect
  assume g: "gave_up c"
  have "quiet c (log ''Reconnect failed:'' c)"
    by simp
  moreover from this g have "quiet (log ''Reconnect failed:'' c)
      (scheduleReconnect (log ''Reconnect failed:'' c))"
    by (simp add: quiet_scheduleReconnect quiet_gave_up)
  ultimately have "quiet c (scheduleReconnect (log ''Reconnect failed:'' c))"
    by (rule quiet_trans)
  then show ?thesis
    using ReconnectAwaitConnect by (cases out) (simp_all add: quiet_replay_next)
next
  case (ReplayAwaitSubscribe i idx)
  have "quiet c (replay_next idx (c\<lparr>subscriptions := subs_delete i (subscriptions c)\<rparr>))"
    by (rule quiet_trans [OF _ quiet_replay_next]) (simp add: quiet_def)
  moreover have "quiet c (replay_next idx (log ''Failed to resubscribe'' c))"
    by (rule quiet_trans [OF _ quiet_replay_next]) simp
  ultimately show ?thesis
    using ReplayAwaitSubscribe by (cases out) simp_all
next
  case (AllSettledItem p)
  then show ?thesis by (simp add: quiet_def split: option.splits)
next
  case (DisconnectAwait p)
  then show ?thesis by (simp add: quiet_disconnect_finish)
qed

lemma quiet_step:
  assumes "gave_up c" and "\<not> is_open_signal e" and "step e c = Some c'"
  shows "quiet c c'"
proof (cases e)
  case (WsMessage s d)
  then show ?thesis
    using assms by (auto simp add: quiet_handleMessage split: if_splits)
next
  case (WsError s)
  have "quiet c (handleError s (set_readyState s CLOSING c))"
    by (rule quiet_trans [OF _ quiet_handleError]) (simp add: quiet_def set_readyState_def)
  then show ?thesis
    using assms WsError by (auto split: if_splits)
next
  case (WsClose s code reason)
  have q: "quiet c (set_readyState s CLOSED c)"
    by (simp add: quiet_def set_readyState_def)
  then have "gave_up (set_readyState s CLOSED c)"
    using assms(1) by (simp add: quiet_gave_up)
  then have "quiet (set_readyState s CLOSED c) (handleClose s code reason (set_readyState s CLOSED c))"
    by (rule quiet_handleClose)
  then have "quiet c (handleClose s code reason (set_readyState s CLOSED c))"
    using q by (simp add: quiet_trans)
  then show ?thesis
    using assms WsClose by (auto split: if_splits)
next
  case (Timer t)
  have "quiet c (fire t a (clearTimeout t c))" for a
    by (rule quiet_trans [OF quiet_clearTimeout quiet_fire])
  then show ?thesis
    using assms Timer by (auto simp add: quiet_fire split: option.splits if_splits)
next
  case Microtask
  have "quiet c (resume k out (c\<lparr>microtasks := rest\<rparr>))" for k out rest
  proof -
    have q: "quiet c (c\<lparr>microtasks := rest\<rparr>)"
      by (simp add: quiet_def)
    then have "gave_up (c\<lparr>microtasks := rest\<rparr>)"
      using assms(1) by (simp add: quiet_gave_up)
    then have "quiet (c\<lparr>microtasks := rest\<rparr>) (resume k out (c\<lparr>microtasks := rest\<rparr>))"
      by (rule quiet_resume)
    then show ?thesis
      using q by (simp add: quiet_trans)
  qed
  then show ?thesis
    using assms Microtask by (auto split: list.splits)
next
  case (Connect n)
  then show ?thesis using assms by (auto simp add: quiet_connect)
next
  case (Disconnect n)
  then show ?thesis using assms by (auto simp add: quiet_disconnect)
next
  case (Subscribe n ty ps cb)
  then show ?thesis using assms by (auto simp add: quiet_subscribe)
next
  case (Unsubscribe n i)
  then show ?thesis using assms by (auto simp add: quiet_unsubscribe)
next
  case (On ev l)
  then show ?thesis using assms by (auto simp add: on_def quiet_def)
next
  case (Off ev l)
  then show ?thesis using assms by (auto simp add: off_def quiet_def)
next
  case (WsOpen s)
  then show ?thesis using assms by simp
qed

lemma quiet_run:
  "gave_up c \<Longrightarrow> list_all (\<lambda>e. \<not> is_open_signal e) es \<Longrightarrow> run es c = Some c' \<Longrightarrow> quiet c c'"
proof (induction es arbitrary: c)
  case Nil
  then show ?case by simp
next
  case (Cons e es)
  from Cons.prems obtain c1 where c1: "step e c = Some c1" and rest: "run es c1 = Some c'"
    by (auto split: option.splits)
  have q: "quiet c c1"
    by (rule quiet_step [OF Cons.prems(1) _ c1]) (use Cons.prems in simp)
  then have "gave_up c1"
    using Cons.prems(1) by (simp add: quiet_gave_up)
  then have "quiet c1 c'"
    using Cons.prems rest by (simp add: Cons.IH)
  then show ?case
    using q by (simp add: quiet_trans)
qed

lemma constructed_options:
  assumes "constructor opts rt = Inr c0"
  shows "maxReconnectAttempts (options c0) = default_to \<infinity> (opt_maxReconnectAttempts opts)"
    and "autoReconnect (options c0) = default_to True (opt_autoReconnect opts)"
proof -
  have "c0 = projr (constructor opts rt)"
    using assms by simp
  then show "maxReconnectAttempts (options c0) = default_to \<infinity> (opt_maxReconnectAttempts opts)"
    and "autoReconnect (options c0) = default_to True (opt_autoReconnect opts)"
    using assms by (simp_all add: constructor_def split: if_splits)
qed

text \<open>
  C3. For a client constructed with \<^verbatim>\<open>maxReconnectAttempts: 2\<close> (auto-reconnect not
  switched off, a WebSocket implementation present): after an unexpected closure and two
  failed attempts, in whichever of the four ways each fails, exactly the \<^verbatim>\<open>reconnect\<close>
  events 1 and 2 have fired, \<^verbatim>\<open>getState\<close> is \<^verbatim>\<open>closed\<close>, the attempts are used up and no
  reconnect timer is armed. From there on, whatever happens short of a transport opening
  (calls of the application, signals, timers, promise reactions), no further
  \<^verbatim>\<open>reconnect\<close> event fires and no reconnect timer is armed again.
\<close>

theorem reconnection_stops_after_two_failures:
  assumes "constructor opts rt = Inr c0"
    and "opt_maxReconnectAttempts opts = Some 2"
    and "opt_autoReconnect opts \<noteq> Some False"
    and "rt_websocketImpl rt"
  shows "\<exists>c. run (two_failed_reconnects f1 f2) c0 = Some c
           \<and> reconnect_events (effects c) = [1, 2]
           \<and> getState c = ''closed''
           \<and> gave_up c
           \<and> (\<forall>es c'. list_all (\<lambda>e. \<not> is_open_signal e) es \<and> run es c = Some c' \<longrightarrow>
                  reconnect_events (effects c') = [1, 2] \<and> gave_up c')"
proof -
  have max: "maxReconnectAttempts (options c0) = 2"
    using constructed_options(1) [OF assms(1)] assms(2) by (simp add: default_to_def)
  have auto: "autoReconnect (options c0)"
    using constructed_options(2) [OF assms(1)] assms(3)
    by (cases "opt_autoReconnect opts") (simp_all add: default_to_def)
  obtain c1 where c1:
    "run ([Connect 0, WsOpen 0, WsClose 0 (Num 1006) NoReason, Timer 2] @ failed_open f1 1 3) c0
       = Some c1"
    "awaiting_second_attempt c1" "options c1 = options c0"
    "reconnect_events (effects c1) = [1, 2]"
    using first_failed_reconnect [OF assms, of f1] by blast
  obtain c2 where c2:
    "run ([Timer 4] @ failed_open f2 2 5) c1 = Some c2"
    "reconnect_events (effects c2) = reconnect_events (effects c1)"
    "reconnectAttempts c2 = 2" "timers c2 = []" "microtasks c2 = []"
    "getState c2 = ''closed''" "options c2 = options c1"
    using second_failed_reconnect [of c1 f2] c1(2,3) max auto by auto
  have whole: "run (two_failed_reconnects f1 f2) c0 = Some c2"
    using c1(1) c2(1) run_append
      [of "[Connect 0, WsOpen 0, WsClose 0 (Num 1006) NoReason, Timer 2] @ failed_open f1 1 3"
          "[Timer 4] @ failed_open f2 2 5" c0]
    by (simp add: two_failed_reconnects_def)
  have events: "reconnect_events (effects c2) = [1, 2]"
    using c1 c2 by simp
  have given: "gave_up c2"
    using c1 c2 max by (simp add: gave_up_def)
  have later: "reconnect_events (effects c') = [1, 2] \<and> gave_up c'"
    if "list_all (\<lambda>e. \<not> is_open_signal e) es \<and> run es c2 = Some c'" for es c'
  proof -
    have "quiet c2 c'"
      using quiet_run [of c2 es c'] given that by simp
    then show ?thesis
      using given events by (auto simp add: quiet_gave_up quiet_def)
  qed
  from whole events c2(6) given later show ?thesis
    by blast
qed

theorem reconnection_stops_after_two_failures_witness:
  "map_option (\<lambda>c. (reconnect_events (effects c), getState c, gave_up c))
     (run (two_failed_reconnects ErrorThenClose ErrorAndClose) example_client) =
   Some ([1, 2], ''closed'', True)"
proof -
  have "constructor example_options example_runtime = Inr example_client"
    by (simp add: example_client_def constructor_def example_options_def)
  moreover have "opt_maxReconnectAttempts example_options = Some 2"
    and "opt_autoReconnect example_options \<noteq> Some False"
    and "rt_websocketImpl example_runtime"
    by (simp_all add: example_options_def example_runtime_def)
  ultimately show ?thesis
    using reconnection_stops_after_two_failures
      [of example_options example_runtime example_client ErrorThenClose ErrorAndClose]
    by auto
qed

subsection \<open>The replay of the subscriptions after a reconnect\<close>

text \<open>
  C2 does not hold of the code. The loop of the reconnect timer that replays the
  subscriptions iterates over the registry itself, and the \<^verbatim>\<open>subscribe\<close> it awaits
  inserts the re-registered entry into that registry; so the loop goes on to the entry
  it has just inserted and subscribes it again.

  The subscription \<^verbatim>\<open>0xabc\<close> was the only one before the closure. After the reconnect
  the server answers the replayed request with the id \<^verbatim>\<open>0xdef\<close>, and the request that
  follows with the id \<^verbatim>\<open>0x123\<close>. The client has then sent three requests on the new
  transport for the one subscription, the last of them (request 4) still in flight; the
  registry holds the subscription under \<^verbatim>\<open>0x123\<close> only, and a push that names
  \<^verbatim>\<open>0xdef\<close>, an id the server has assigned after the reconnect, reaches no callback.

  When the server answers the replayed request with the id \<^verbatim>\<open>0xabc\<close> again, the entry
  is overwritten under that id and then deleted by the loop: the replay is over, no
  request is in flight, and the registry is empty, so the subscription is lost although
  its re-registration has succeeded, and a push that names the assigned id reaches no
  callback.
\<close>

theorem replay_revisits_its_own_entries:
  "getSubscriptions example_reconnected =
     [\<lparr>sub_id = Str ''0xabc'', sub_type = newHeads, params = [], callback = Fn 7 False\<rparr>]
   \<and> getState example_replayed_twice = ''open''
   \<and> sent_requests (effects example_replayed_twice) =
       [(0, ''eth_subscribe'', [Str ''newHeads'']), (1, ''eth_subscribe'', [Str ''newHeads'']),
        (1, ''eth_subscribe'', [Str ''newHeads'']), (1, ''eth_subscribe'', [Str ''newHeads''])]
   \<and> map fst (pendingRequests example_replayed_twice) = [example_request 4]
   \<and> getSubscriptions example_replayed_twice =
       [\<lparr>sub_id = Str ''0x123'', sub_type = newHeads, params = [], callback = Fn 7 False\<rparr>]
   \<and> callback_calls
       (effects (after [WsMessage 1 (Parsed (example_push (Str ''0xdef'') (Obj 16)))]
                   example_replayed_twice)) = []
   \<and> getState example_replay_same_id = ''open''
   \<and> pendingRequests example_replay_same_id = []
   \<and> microtasks example_replay_same_id = []
   \<and> getSubscriptions example_replay_same_id = []
   \<and> callback_calls
       (effects (after [WsMessage 1 (Parsed (example_push (Str ''0xabc'') (Obj 16)))]
                   example_replay_same_id)) = []"
proof -
  have four: "(4::nat) = Suc (Suc (Suc (Suc 0)))"
    by simp
  show ?thesis
    by (intro conjI)
      (simp_all add: example_replayed_twice_def example_replay_same_id_def
        example_reconnected_def example_subscribed_eq example_subscribing_eq
        example_open_eq example_client_eq example_request_def example_response_def
        example_push_def numeral_2_eq_2 numeral_3_eq_3 four callback_calls_def
        sent_requests_def getSubscriptions_def
        after_def socket_in_def set_readyState_def handleClose_def handleOpen_def
        handleMessage_def scheduleReconnect_def replay_next_def subs_next_def subs_has_def
        subs_get_def subs_set_def subs_delete_def subscribe_def subscribe_request_def
        generateRequestId_def sendRequest_def connect_def ws_state_def newPromise_def
        buildWebSocketUrl_def log_def setTimeout_def clearTimeout_def emit_def settle_def
        deliver_def xrpc_error_def or_else_def getState_def Let_def)
qed

text \<open>
  A replay that the server refuses: the subscription \<^verbatim>\<open>0xabc\<close> was active before the
  closure; the client reconnects and the replay of the subscription is answered with an
  error. The entry stays in the registry under its old id, and a push that names that
  id is dispatched to the callback.
\<close>

lemma refused_replay_keeps_old_id:
  "map (\<lambda>e. sub_id (snd e)) (subscriptions example_subscribed) = [Str ''0xabc'']
   \<and> getState example_replay_refused = ''open''
   \<and> map (\<lambda>e. sub_id (snd e)) (subscriptions example_replay_refused) = [Str ''0xabc'']
   \<and> callback_calls
       (effects (after [WsMessage 1 (Parsed (example_push (Str ''0xabc'') (Obj 16)))]
                   example_replay_refused)) =
     [(Fn 7 False, Obj 16)]"
  by (simp add: example_replay_refused_def example_subscribed_eq example_subscribing_eq
      example_open_eq example_client_eq example_request_def example_failure_def
      example_push_def numeral_2_eq_2 callback_calls_def
      after_def socket_in_def set_readyState_def handleClose_def handleOpen_def
      handleMessage_def scheduleReconnect_def replay_next_def subs_next_def subs_has_def
      subs_get_def subscribe_def subscribe_request_def generateRequestId_def sendRequest_def
      connect_def ws_state_def newPromise_def buildWebSocketUrl_def log_def setTimeout_def
      clearTimeout_def emit_def settle_def deliver_def xrpc_error_def or_else_def getState_def
      Let_def)

lemma list_all_less_Suc: "list_all (\<lambda>e. fst e < (n::nat)) xs \<Longrightarrow> list_all (\<lambda>e. fst e < Suc n) xs"
  by (induction xs) auto

lemma list_all_le_Suc: "list_all (\<lambda>e. fst e \<le> (n::nat)) xs \<Longrightarrow> list_all (\<lambda>e. fst e \<le> Suc n) xs"
  by (induction xs) auto

lemma list_all_delete: "list_all P xs \<Longrightarrow> list_all P (AList.delete k xs)"
  by (induction xs) auto

lemma fresh_ids_settle: "fresh_ids c \<Longrightarrow> fresh_ids (settle p out c)"
  by (simp add: fresh_ids_def settle_def list_all_delete split: option.splits)

lemma fresh_ids_clearTimeout: "fresh_ids c \<Longrightarrow> fresh_ids (clearTimeout t c)"
  by (simp add: fresh_ids_def list_all_delete)

lemma fresh_ids_log: "fresh_ids c \<Longrightarrow> fresh_ids (log text c)"
  by (simp add: fresh_ids_def)

lemma ws_state_openD:
  "ws_state c = Some OPEN \<Longrightarrow> \<exists>s. ws c = Some s \<and> socket_in s {OPEN, CLOSING} c"
  by (auto simp add: ws_state_def socket_in_def split: option.splits if_splits)

text \<open>The request that \<^verbatim>\<open>subscribe\<close> sends on an open transport is in flight afterwards.\<close>

lemma subscribe_request_in_flight:
  assumes "ws_state c = Some OPEN" and "fresh_ids c"
  shows "map_of (pendingRequests (subscribe_request k ty ps cb c))
           (last_request_id (subscribe_request k ty ps cb c)) =
         Some (PendingSubscribe ty ps cb (promiseCounter c) (Suc (timerCounter c)))"
    and "map_of (promises (subscribe_request k ty ps cb c)) (promiseCounter c) = Some k"
    and "subscriptions (subscribe_request k ty ps cb c) = subscriptions c"
    and "subscriptionSlots (subscribe_request k ty ps cb c) = subscriptionSlots c"
    and "microtasks (subscribe_request k ty ps cb c) = microtasks c"
    and "ws_state (subscribe_request k ty ps cb c) = Some OPEN"
    and "fresh_ids (subscribe_request k ty ps cb c)"
proof -
  have eq: "subscribe_request k ty ps cb c = subscribe k ty ps cb c"
    using assms(1) by (simp add: subscribe_def)
  have last: "last_request_id (subscribe_request k ty ps cb c) = fst (generateRequestId c)"
    using assms(1)
    by (auto simp add: subscribe_request_def generateRequestId_def newPromise_def
        setTimeout_def sendRequest_def ws_state_def last_request_id_def Let_def
        split: option.splits if_splits)
  show "map_of (pendingRequests (subscribe_request k ty ps cb c))
           (last_request_id (subscribe_request k ty ps cb c)) =
         Some (PendingSubscribe ty ps cb (promiseCounter c) (Suc (timerCounter c)))"
    unfolding last unfolding eq using assms by (rule subscribe_registers(1))
  show "map_of (promises (subscribe_request k ty ps cb c)) (promiseCounter c) = Some k"
    unfolding eq using assms by (rule subscribe_registers(2))
  show "subscriptions (subscribe_request k ty ps cb c) = subscriptions c"
    unfolding eq using assms by (rule subscribe_registers(4))
  show "subscriptionSlots (subscribe_request k ty ps cb c) = subscriptionSlots c"
    and "microtasks (subscribe_request k ty ps cb c) = microtasks c"
    and "ws_state (subscribe_request k ty ps cb c) = Some OPEN"
    using assms(1)
    by (auto simp add: subscribe_request_def generateRequestId_def newPromise_def
        setTimeout_def sendRequest_def ws_state_def Let_def split: option.splits if_splits)
  show "fresh_ids (subscribe_request k ty ps cb c)"
    using assms
    by (auto simp add: subscribe_request_def generateRequestId_def newPromise_def
        setTimeout_def sendRequest_def ws_state_def fresh_ids_def Let_def list_all_less_Suc
        list_all_le_Suc split: option.splits if_splits)
qed

lemma find_skip:
  "list_all (\<lambda>e. \<not> P e) xs \<Longrightarrow> P x \<Longrightarrow> find P (xs @ x # ys) = Some x"
  by (induction xs) auto

lemma find_none: "list_all (\<lambda>e. \<not> P e) xs \<Longrightarrow> find P xs = None"
  by (induction xs) auto

text \<open>The loop at its iterator: the request for the next unvisited entry is sent.\<close>

lemma replay_next_at:
  assumes "ws_state c = Some OPEN" and "fresh_ids c" and "registry_wf c"
    and "microtasks c = []" and "subscriptions c = kept @ cur # rest"
    and "list_all (\<lambda>e. fst e < idx) kept" and "idx \<le> fst cur"
  shows "replay_at kept cur rest (replay_next idx c)"
proof -
  have "list_all (\<lambda>e. \<not> idx \<le> fst e) kept"
    using assms(6) by (induction kept) auto
  then have "subs_next idx (subscriptions c) = Some cur"
    using assms(5,7) by (simp add: subs_next_def find_skip)
  then have eq: "replay_next idx c =
      subscribe_request (ReplayAwaitSubscribe (sub_id (snd cur)) (Suc (fst cur)))
        (sub_type (snd cur)) (params (snd cur)) (callback (snd cur)) c"
    using assms(1) by (simp add: replay_next_def subscribe_def split: prod.splits)
  show ?thesis
    unfolding eq replay_at_def registry_wf_def
    using assms(3,4,5) subscribe_request_in_flight [OF assms(1,2)]
    by (auto simp add: registry_wf_def)
qed

lemma replay_next_done:
  assumes "list_all (\<lambda>e. fst e < idx) (subscriptions c)"
  shows "replay_next idx c = c"
proof -
  have "list_all (\<lambda>e. \<not> idx \<le> fst e) (subscriptions c)"
    using assms by (induction "subscriptions c") (auto simp add: list_all_iff)
  then show ?thesis
    by (simp add: replay_next_def subs_next_def find_none)
qed
lemma settle_replay:
  "map_of (promises c) p = Some (ReplayAwaitSubscribe i n) \<Longrightarrow>
   settle p out c =
     c\<lparr>promises := AList.delete p (promises c),
       microtasks := microtasks c @ [(ReplayAwaitSubscribe i n, out)]\<rparr>"
  by (simp add: settle_def deliver_def)

lemma answer_message_simps [simp]:
  "msg_method (answer_message rid a) \<noteq> Str ''eth_subscription''"
  "msg_id (answer_message rid a) = rid"
  "msg_error (answer_message rid (Assigned v)) = None"
  "msg_result (answer_message rid (Assigned v)) = v"
  "msg_error (answer_message rid (Refused e)) = Some e"
  by (cases a; simp)+

declare answer_message.simps [simp del]

lemma last_request_id_defined [simp]: "last_request_id c \<noteq> Undefined"
  by (simp add: last_request_id_def)

lemma sorted_slots_before:
  "sorted_wrt (<) (map fst (kept @ cur # rest)) \<Longrightarrow> list_all (\<lambda>e. fst e < Suc (fst cur)) (kept @ [cur])"
  by (auto simp add: sorted_wrt_append list_all_iff)

lemma sorted_slots_after:
  "sorted_wrt (<) (map fst (kept @ cur # x # xs)) \<Longrightarrow> Suc (fst cur) \<le> fst x"
  by (auto simp add: sorted_wrt_append)

text \<open>
  A round of the replay whose request is refused: the entry stays as it is, and the loop
  moves on to the next unvisited entry, or ends when there is none.
\<close>

lemma replay_round_refused:
  assumes "replay_at kept cur rest c"
  shows "\<exists>c1. replay_round (Refused e) c = Some c1
           \<and> subscriptions c1 = kept @ cur # rest
           \<and> (case rest of
                 [] \<Rightarrow> microtasks c1 = []
               | x # xs \<Rightarrow> replay_at (kept @ [cur]) x xs c1)"
proof -
  let ?m = "answer_message (last_request_id c) (Refused e)"
  let ?K = "ReplayAwaitSubscribe (sub_id (snd cur)) (Suc (fst cur))"
  let ?err = "Reject (xrpc_error e ''Subscription failed'')"
  from assms obtain p t where
    pend: "map_of (pendingRequests c) (last_request_id c) =
             Some (PendingSubscribe (sub_type (snd cur)) (params (snd cur)) (callback (snd cur)) p t)"
    and prom: "map_of (promises c) p = Some ?K"
    by (auto simp add: replay_at_def)
  from assms have subs: "subscriptions c = kept @ cur # rest" and wf: "registry_wf c"
    and mt: "microtasks c = []" and op: "ws_state c = Some OPEN" and fr: "fresh_ids c"
    by (simp_all add: replay_at_def)
  from op obtain s where s: "ws c = Some s" "socket_in s {OPEN, CLOSING} c"
    using ws_state_openD by blast
  let ?c1 = "handleMessage (Parsed ?m) c"
  have c1: "?c1 =
      (clearTimeout t
         ((log ''Received message:'' c)
            \<lparr>pendingRequests := AList.delete (last_request_id c) (pendingRequests c)\<rparr>))
        \<lparr>promises := AList.delete p (promises c), microtasks := [(?K, ?err)]\<rparr>"
    using pend prom mt
    by (simp add: response_resolves [where pending = "PendingSubscribe (sub_type (snd cur))
          (params (snd cur)) (callback (snd cur)) p t"] settle_replay)
  let ?c2 = "log ''Failed to resubscribe'' (?c1\<lparr>microtasks := []\<rparr>)"
  have c2: "subscriptions ?c2 = kept @ cur # rest" "microtasks ?c2 = []"
    "subscriptionSlots ?c2 = subscriptionSlots c"
    using subs by (simp_all add: c1)
  have "ws_state ?c2 = ws_state c"
    by (rule ws_state_cong) (simp_all add: c1)
  then have op2: "ws_state ?c2 = Some OPEN"
    using op by simp
  have fr2: "fresh_ids ?c2"
    using fr by (simp add: c1 fresh_ids_def list_all_delete)
  have wf2: "registry_wf ?c2"
    using wf c2 subs by (simp add: registry_wf_def)
  have round: "replay_round (Refused e) c = Some (replay_next (Suc (fst cur)) ?c2)"
    using s by (simp add: replay_round_def c1)
  show ?thesis
  proof (cases rest)
    case Nil
    have "list_all (\<lambda>e. fst e < Suc (fst cur)) (subscriptions ?c2)"
      using wf subs Nil c2(1) sorted_slots_before [of kept cur "[]"]
      by (simp add: registry_wf_def)
    then have "replay_next (Suc (fst cur)) ?c2 = ?c2"
      by (rule replay_next_done)
    then show ?thesis
      using round c2 Nil by simp
  next
    case (Cons x xs)
    have sorted: "sorted_wrt (<) (map fst (kept @ cur # x # xs))"
      using wf subs Cons by (simp add: registry_wf_def)
    have "replay_at (kept @ [cur]) x xs (replay_next (Suc (fst cur)) ?c2)"
    proof (rule replay_next_at [OF op2 fr2 wf2 c2(2)])
      show "subscriptions ?c2 = (kept @ [cur]) @ x # xs"
        using c2(1) Cons by simp
      show "list_all (\<lambda>e. fst e < Suc (fst cur)) (kept @ [cur])"
        using sorted by (rule sorted_slots_before)
      show "Suc (fst cur) \<le> fst x"
        using sorted by (rule sorted_slots_after)
    qed
    moreover have "subscriptions (replay_next (Suc (fst cur)) ?c2) = kept @ cur # rest"
      using calculation Cons by (simp add: replay_at_def)
    ultimately show ?thesis
      using round Cons by simp
  qed
qed
lemma renamed_subscription:
  "\<lparr>sub_id = v, sub_type = sub_type s, params = params s, callback = callback s\<rparr> = s\<lparr>sub_id := v\<rparr>"
  by (cases s) simp

lemma subs_delete_current:
  assumes "distinct (map (\<lambda>e. sub_id (snd e)) (kept @ cur # rest))"
    and "sub_id (snd new) \<noteq> sub_id (snd cur)"
  shows "subs_delete (sub_id (snd cur)) (kept @ cur # rest @ [new]) = kept @ rest @ [new]"
proof -
  have k: "filter (\<lambda>e. sub_id (snd e) \<noteq> sub_id (snd cur)) kept = kept"
    using assms(1) by (auto simp add: filter_id_conv image_iff)
  have r: "filter (\<lambda>e. sub_id (snd e) \<noteq> sub_id (snd cur)) rest = rest"
    using assms(1) by (auto simp add: filter_id_conv image_iff)
  show ?thesis
    using assms(2) k r by (simp add: subs_delete_def)
qed

lemma registry_after_rename:
  assumes "sorted_wrt (<) (map fst (kept @ cur # rest))"
    and "list_all (\<lambda>e. fst e < n) (kept @ cur # rest)"
    and "distinct (map (\<lambda>e. sub_id (snd e)) (kept @ cur # rest))"
    and "\<not> subs_has v (kept @ cur # rest)"
  shows "sorted_wrt (<) (map fst (kept @ rest @ [(n, s\<lparr>sub_id := v\<rparr>)]))"
    and "list_all (\<lambda>e. fst e < Suc n) (kept @ rest @ [(n, s\<lparr>sub_id := v\<rparr>)])"
    and "distinct (map (\<lambda>e. sub_id (snd e)) (kept @ rest @ [(n, s\<lparr>sub_id := v\<rparr>)]))"
    and "list_all (\<lambda>e. fst e < Suc (fst cur)) kept"
    and "Suc (fst cur) \<le> fst (hd (rest @ [(n, s\<lparr>sub_id := v\<rparr>)]))"
  using assms
  by (cases rest; auto simp add: sorted_wrt_append list_all_iff subs_has_def less_Suc_eq)+

text \<open>
  A round of the replay whose request is answered with an id that is no key of the
  registry: the entry is replaced by one with the same type, parameters and callback
  under the new id, appended at the end, and the loop moves on to the next unvisited
  entry, which exists: at the latest it is the entry just appended.
\<close>

lemma replay_round_assigned:
  assumes "replay_at kept cur rest c" and "truthy v" and "\<not> subs_has v (subscriptions c)"
  shows "\<exists>c1. replay_round (Assigned v) c = Some c1
           \<and> subscriptions c1 = kept @ rest @ [(subscriptionSlots c, (snd cur)\<lparr>sub_id := v\<rparr>)]
           \<and> replay_at kept (hd (rest @ [(subscriptionSlots c, (snd cur)\<lparr>sub_id := v\<rparr>)]))
                (tl (rest @ [(subscriptionSlots c, (snd cur)\<lparr>sub_id := v\<rparr>)])) c1"
proof -
  let ?m = "answer_message (last_request_id c) (Assigned v)"
  let ?K = "ReplayAwaitSubscribe (sub_id (snd cur)) (Suc (fst cur))"
  let ?new = "(subscriptionSlots c, (snd cur)\<lparr>sub_id := v\<rparr>)"
  from assms(1) obtain p t where
    pend: "map_of (pendingRequests c) (last_request_id c) =
             Some (PendingSubscribe (sub_type (snd cur)) (params (snd cur)) (callback (snd cur)) p t)"
    and prom: "map_of (promises c) p = Some ?K"
    by (auto simp add: replay_at_def)
  from assms(1) have subs: "subscriptions c = kept @ cur # rest" and wf: "registry_wf c"
    and mt: "microtasks c = []" and op: "ws_state c = Some OPEN" and fr: "fresh_ids c"
    by (simp_all add: replay_at_def)
  from op obtain s where s: "ws c = Some s" "socket_in s {OPEN, CLOSING} c"
    using ws_state_openD by blast
  have fresh_key: "\<not> subs_has v (kept @ cur # rest)"
    using assms(3) subs by simp
  then have other: "sub_id (snd ?new) \<noteq> sub_id (snd cur)"
    by (auto simp add: subs_has_def)
  let ?c1 = "handleMessage (Parsed ?m) c"
  have c1: "?c1 =
      (log ''Subscribed''
         ((clearTimeout t
             ((log ''Received message:'' c)
                \<lparr>pendingRequests := AList.delete (last_request_id c) (pendingRequests c)\<rparr>))
            \<lparr>subscriptions := subscriptions c @ [?new],
             subscriptionSlots := Suc (subscriptionSlots c)\<rparr>))
        \<lparr>promises := AList.delete p (promises c), microtasks := [(?K, Fulfil v)]\<rparr>"
    using pend prom mt assms(2,3)
    by (simp add: response_resolves [where pending = "PendingSubscribe (sub_type (snd cur))
          (params (snd cur)) (callback (snd cur)) p t"] settle_replay subs_set_def
        renamed_subscription)
  let ?c2 = "?c1\<lparr>microtasks := [],
                 subscriptions := subs_delete (sub_id (snd cur)) (subscriptions (?c1\<lparr>microtasks := []\<rparr>))\<rparr>"
  have del: "subs_delete (sub_id (snd cur)) (kept @ cur # rest @ [?new]) = kept @ rest @ [?new]"
    using wf subs other by (intro subs_delete_current) (simp_all add: registry_wf_def)
  have c2: "subscriptions ?c2 = kept @ rest @ [?new]" "microtasks ?c2 = []"
    "subscriptionSlots ?c2 = Suc (subscriptionSlots c)"
    using subs del by (simp_all add: c1)
  have "ws_state ?c2 = ws_state c"
    by (rule ws_state_cong) (simp_all add: c1)
  then have op2: "ws_state ?c2 = Some OPEN"
    using op by simp
  have fr2: "fresh_ids ?c2"
    using fr by (simp add: c1 fresh_ids_def list_all_delete)
  have srt: "sorted_wrt (<) (map fst (kept @ cur # rest))"
    and bnd: "list_all (\<lambda>e. fst e < subscriptionSlots c) (kept @ cur # rest)"
    and dst: "distinct (map (\<lambda>e. sub_id (snd e)) (kept @ cur # rest))"
    using wf subs by (simp_all add: registry_wf_def)
  note after = registry_after_rename [OF srt bnd dst fresh_key]
  have wf2: "registry_wf ?c2"
    unfolding registry_wf_def c2 using after(1,2,3) by simp
  have round: "replay_round (Assigned v) c = Some (replay_next (Suc (fst cur)) ?c2)"
    using s by (simp add: replay_round_def c1)
  have at: "replay_at kept (hd (rest @ [?new])) (tl (rest @ [?new]))
              (replay_next (Suc (fst cur)) ?c2)"
  proof (rule replay_next_at [OF op2 fr2 wf2 c2(2)])
    show "subscriptions ?c2 = kept @ hd (rest @ [?new]) # tl (rest @ [?new])"
      using c2(1) by simp
    show "list_all (\<lambda>e. fst e < Suc (fst cur)) kept"
      by (rule after(4))
    show "Suc (fst cur) \<le> fst (hd (rest @ [?new]))"
      by (rule after(5))
  qed
  then have "subscriptions (replay_next (Suc (fst cur)) ?c2) = kept @ rest @ [?new]"
    by (simp add: replay_at_def)
  then show ?thesis
    using round at by simp
qed
lemma subs_has_append [simp]: "subs_has k (xs @ ys) = (subs_has k xs \<or> subs_has k ys)"
  by (auto simp add: subs_has_def)

lemma subs_has_Cons [simp]: "subs_has k (x # xs) = (sub_id (snd x) = k \<or> subs_has k xs)"
  by (auto simp add: subs_has_def)

lemma subs_has_Nil [simp]: "\<not> subs_has k []"
  by (simp add: subs_has_def)

text \<open>
  The rounds of the first pass: with one answer for the entry in flight and one for each
  of the entries \<open>rest\<close> after it, the refused entries stay where they are and the
  answered ones move to the end under their new ids, behind the entries \<open>extra\<close> that
  were appended earlier.
\<close>

lemma replay_rounds_first_pass:
  assumes "replay_at kept cur (rest @ extra) c"
    and "length as = Suc (length rest)"
    and "distinct (assigned_ids as)"
    and "\<forall>v \<in> set (assigned_ids as). truthy v \<and> \<not> subs_has v (subscriptions c)"
  shows "\<exists>c'. replay_rounds as c = Some c'
           \<and> map snd (subscriptions c') =
               map snd kept @ kept_entries (map snd (cur # rest)) as @ map snd extra
               @ renamed_entries (map snd (cur # rest)) as"
  using assms
proof (induction rest arbitrary: c kept cur extra as)
  case Nil
  then obtain a where as: "as = [a]"
    by (cases as) auto
  show ?case
  proof (cases a)
    case (Assigned v)
    then have "truthy v" and "\<not> subs_has v (subscriptions c)"
      using Nil.prems(4) as by simp_all
    with Nil.prems(1) obtain c1 where "replay_round (Assigned v) c = Some c1"
      and "subscriptions c1 = kept @ extra @ [(subscriptionSlots c, (snd cur)\<lparr>sub_id := v\<rparr>)]"
      using replay_round_assigned [of kept cur extra c v] by auto
    then show ?thesis
      using as Assigned by simp
  next
    case (Refused e)
    from Nil.prems(1) obtain c1 where "replay_round (Refused e) c = Some c1"
      and "subscriptions c1 = kept @ cur # extra"
      using replay_round_refused [of kept cur extra c e] by auto
    then show ?thesis
      using as Refused by simp
  qed
next
  case (Cons r rest)
  then obtain a as' where as: "as = a # as'" and len: "length as' = Suc (length rest)"
    by (cases as) auto
  have subs: "subscriptions c = kept @ cur # r # rest @ extra"
    using Cons.prems(1) by (simp add: replay_at_def)
  show ?case
  proof (cases a)
    case (Assigned v)
    let ?new = "(subscriptionSlots c, (snd cur)\<lparr>sub_id := v\<rparr>)"
    have v: "truthy v" "\<not> subs_has v (subscriptions c)"
      using Cons.prems(4) as Assigned by simp_all
    with Cons.prems(1) obtain c1 where c1: "replay_round (Assigned v) c = Some c1"
      "subscriptions c1 = kept @ (r # rest @ extra) @ [?new]"
      "replay_at kept r (rest @ extra @ [?new]) c1"
      using replay_round_assigned [of kept cur "(r # rest) @ extra" c v] by auto
    have d: "distinct (assigned_ids as')" and nv: "v \<notin> set (assigned_ids as')"
      using Cons.prems(3) as Assigned by simp_all
    have fresh: "\<forall>w \<in> set (assigned_ids as'). truthy w \<and> \<not> subs_has w (subscriptions c1)"
      using Cons.prems(4) as Assigned nv subs c1(2) by auto
    from Cons.IH [of kept r "extra @ [?new]" c1 as'] c1(3) len d fresh
    obtain c' where "replay_rounds as' c1 = Some c'"
      and "map snd (subscriptions c') =
             map snd kept @ kept_entries (map snd (r # rest)) as' @ map snd (extra @ [?new])
             @ renamed_entries (map snd (r # rest)) as'"
      by auto
    then show ?thesis
      using as Assigned c1(1) by simp
  next
    case (Refused e)
    from Cons.prems(1) obtain c1 where c1: "replay_round (Refused e) c = Some c1"
      "subscriptions c1 = kept @ cur # (r # rest) @ extra"
      "replay_at (kept @ [cur]) r (rest @ extra) c1"
      using replay_round_refused [of kept cur "(r # rest) @ extra" c e] by auto
    have d: "distinct (assigned_ids as')"
      using Cons.prems(3) as Refused by simp
    have fresh: "\<forall>w \<in> set (assigned_ids as'). truthy w \<and> \<not> subs_has w (subscriptions c1)"
      using Cons.prems(4) as Refused subs c1(2) by auto
    from Cons.IH [of "kept @ [cur]" r extra c1 as'] c1(3) len d fresh
    obtain c' where "replay_rounds as' c1 = Some c'"
      and "map snd (subscriptions c') =
             map snd (kept @ [cur]) @ kept_entries (map snd (r # rest)) as' @ map snd extra
             @ renamed_entries (map snd (r # rest)) as'"
      by auto
    then show ?thesis
      using as Refused c1(1) by simp
  qed
qed

lemma logical_renamed [simp]: "logical (s\<lparr>sub_id := v\<rparr>) = logical s"
  by (simp add: logical_def)

lemma logical_entries:
  "length as = length ss \<Longrightarrow>
   set (map logical (kept_entries ss as @ renamed_entries ss as)) = set (map logical ss)"
  by (induction ss as rule: kept_entries.induct) auto

lemma length_entries:
  "length as = length ss \<Longrightarrow>
   length (kept_entries ss as @ renamed_entries ss as) = length ss"
  by (induction ss as rule: kept_entries.induct) auto

lemma entries_members:
  "(s, a) \<in> set (zip ss as) \<Longrightarrow>
   (case a of
      Assigned v \<Rightarrow> s\<lparr>sub_id := v\<rparr> \<in> set (renamed_entries ss as)
    | Refused e \<Rightarrow> s \<in> set (kept_entries ss as))"
  by (induction ss as rule: kept_entries.induct) (auto split: answer.splits)

lemma renamed_keys: "sub_id ` set (renamed_entries ss as) \<subseteq> set (assigned_ids as)"
  by (induction ss as rule: kept_entries.induct) auto

lemma kept_keys: "set (kept_entries ss as) \<subseteq> set ss"
  by (induction ss as rule: kept_entries.induct) auto

lemma kept_not_renamed:
  "(s, Assigned v) \<in> set (zip ss as) \<Longrightarrow> distinct (map sub_id ss) \<Longrightarrow>
   sub_id s \<notin> sub_id ` set (kept_entries ss as)"
proof (induction ss as rule: kept_entries.induct)
  case (1 s0 ss e as)
  then have "s \<in> set ss"
    by (auto dest: set_zip_leftD)
  then have "sub_id s \<noteq> sub_id s0"
    using "1.prems"(2) by (force simp add: image_iff)
  then show ?case
    using 1 by auto
next
  case (2 s0 ss v0 as)
  show ?case
  proof (cases "(s, Assigned v) \<in> set (zip ss as)")
    case True
    then show ?thesis using 2 by simp
  next
    case False
    then have "s = s0"
      using "2.prems"(1) by simp
    then have "sub_id s \<notin> sub_id ` set ss"
      using "2.prems"(2) by simp
    then show ?thesis
      using kept_keys [of ss as] by auto
  qed
qed simp_all
lemma kept_distinct:
  "distinct (map sub_id ss) \<Longrightarrow> distinct (map sub_id (kept_entries ss as))"
proof (induction ss as rule: kept_entries.induct)
  case (1 s ss e as)
  then show ?case
    using kept_keys [of ss as] by auto
qed simp_all

lemma renamed_ids:
  "length as = length ss \<Longrightarrow> map sub_id (renamed_entries ss as) = assigned_ids as"
  by (induction ss as rule: kept_entries.induct) auto

lemma entries_distinct:
  assumes "length as = length ss" and "distinct (map sub_id ss)"
    and "distinct (assigned_ids as)"
    and "\<forall>v \<in> set (assigned_ids as). v \<notin> sub_id ` set ss"
  shows "distinct (map sub_id (kept_entries ss as @ renamed_entries ss as))"
  using assms kept_keys [of ss as]
  by (auto simp add: kept_distinct renamed_ids)

lemma subs_has_keys: "subs_has k m = (k \<in> sub_id ` set (map snd m))"
  by (auto simp add: subs_has_def)

lemma subs_get_member:
  "distinct (map sub_id (map snd m)) \<Longrightarrow> s \<in> set (map snd m) \<Longrightarrow>
   subs_get (sub_id s) m = Some s"
  by (induction m) (auto simp add: subs_get_def)

text \<open>The reaction that starts the replay sends the request for the first entry.\<close>

lemma replay_starts:
  assumes "reconnected c" and "subscriptions c = e # rest"
  shows "\<exists>c1. step Microtask c = Some c1 \<and> replay_at [] e rest c1"
proof -
  let ?c0 = "c\<lparr>microtasks := []\<rparr>"
  have "ws_state ?c0 = ws_state c"
    by (rule ws_state_cong) simp_all
  then have "ws_state ?c0 = Some OPEN" and "fresh_ids ?c0" and "registry_wf ?c0"
    using assms(1) by (simp_all add: reconnected_def fresh_ids_def registry_wf_def)
  then have "replay_at [] e rest (replay_next 0 ?c0)"
    using assms(2) by (intro replay_next_at) simp_all
  moreover have "step Microtask c = Some (replay_next 0 ?c0)"
    using assms(1) by (simp add: reconnected_def)
  ultimately show ?thesis
    by simp
qed

text \<open>
  The first pass of the loop. After the transport of a reconnect attempt has opened, the
  replay visits every entry that was in the registry; \<open>as\<close> are the server's answers to
  these first requests, one per entry, the assigned ids truthy, different from each
  other and no keys of the registry. When the last of these answers has been handled,
  the registry holds the refused entries, unchanged and under their old ids, followed by
  the answered ones, each with its type, parameters and callback under its new id. The
  loop has not ended there when an entry was answered: see \<open>replay_goes_on\<close> below.
\<close>

lemma replay_first_pass:
  assumes "reconnected c"
    and "length as = length (subscriptions c)"
    and "distinct (assigned_ids as)"
    and "\<forall>v \<in> set (assigned_ids as). truthy v \<and> \<not> subs_has v (subscriptions c)"
  shows "\<exists>c'. replay_pass as c = Some c'
           \<and> getSubscriptions c' =
               kept_entries (getSubscriptions c) as @ renamed_entries (getSubscriptions c) as
           \<and> set (map logical (getSubscriptions c')) = set (map logical (getSubscriptions c))
           \<and> length (getSubscriptions c') = length (getSubscriptions c)
           \<and> (\<forall>(s, a) \<in> set (zip (getSubscriptions c) as).
                 case a of
                   Assigned v \<Rightarrow>
                     subs_get v (subscriptions c') = Some (s\<lparr>sub_id := v\<rparr>)
                     \<and> \<not> subs_has (sub_id s) (subscriptions c')
                 | Refused e \<Rightarrow> subs_get (sub_id s) (subscriptions c') = Some s)"
proof -
  let ?ss = "getSubscriptions c"
  have len: "length as = length ?ss"
    using assms(2) by (simp add: getSubscriptions_def)
  have dist: "distinct (map sub_id ?ss)"
    using assms(1) by (simp add: reconnected_def registry_wf_def getSubscriptions_def comp_def)
  have fresh: "\<forall>v \<in> set (assigned_ids as). v \<notin> sub_id ` set ?ss"
    using assms(4) by (simp add: subs_has_keys getSubscriptions_def)
  have "\<exists>c'. replay_pass as c = Some c'
          \<and> getSubscriptions c' = kept_entries ?ss as @ renamed_entries ?ss as"
  proof (cases "subscriptions c")
    case Nil
    then have "replay_next 0 (c\<lparr>microtasks := []\<rparr>) = c\<lparr>microtasks := []\<rparr>"
      by (intro replay_next_done) simp
    then show ?thesis
      using assms(1,2) Nil
      by (simp add: replay_pass_def reconnected_def getSubscriptions_def)
  next
    case (Cons e rest)
    from replay_starts [OF assms(1) Cons] obtain c1
      where c1: "step Microtask c = Some c1" "replay_at [] e rest c1"
      by auto
    then have same: "subscriptions c1 = subscriptions c"
      using Cons by (simp add: replay_at_def)
    from replay_rounds_first_pass [of "[]" e rest "[]" c1 as] c1(2) assms(2,3,4) Cons same
    obtain c' where "replay_rounds as c1 = Some c'"
      and "map snd (subscriptions c') =
             kept_entries (map snd (e # rest)) as @ renamed_entries (map snd (e # rest)) as"
      by auto
    then show ?thesis
      using c1(1) Cons by (simp add: replay_pass_def getSubscriptions_def)
  qed
  then obtain c' where pass: "replay_pass as c = Some c'"
    and reg: "getSubscriptions c' = kept_entries ?ss as @ renamed_entries ?ss as"
    by auto
  have dist': "distinct (map sub_id (map snd (subscriptions c')))"
    using reg entries_distinct [OF len dist assms(3) fresh] by (simp add: getSubscriptions_def)
  have each: "case a of
        Assigned v \<Rightarrow>
          subs_get v (subscriptions c') = Some (s\<lparr>sub_id := v\<rparr>)
          \<and> \<not> subs_has (sub_id s) (subscriptions c')
      | Refused e \<Rightarrow> subs_get (sub_id s) (subscriptions c') = Some s"
    if sa: "(s, a) \<in> set (zip ?ss as)" for s a
  proof (cases a)
    case (Assigned v)
    have "s\<lparr>sub_id := v\<rparr> \<in> set (map snd (subscriptions c'))"
      using entries_members [OF sa] Assigned reg by (simp add: getSubscriptions_def)
    then have "subs_get (sub_id (s\<lparr>sub_id := v\<rparr>)) (subscriptions c') = Some (s\<lparr>sub_id := v\<rparr>)"
      using dist' by (rule subs_get_member [rotated])
    moreover have "sub_id s \<notin> sub_id ` set (kept_entries ?ss as)"
      using sa Assigned dist by (simp add: kept_not_renamed)
    moreover have "sub_id s \<notin> sub_id ` set (renamed_entries ?ss as)"
    proof -
      have "s \<in> set ?ss"
        using sa by (rule set_zip_leftD)
      then have "sub_id s \<notin> set (assigned_ids as)"
        using fresh by auto
      then show ?thesis
        using renamed_keys [of ?ss as] by auto
    qed
    ultimately show ?thesis
      using Assigned reg by (simp add: subs_has_keys getSubscriptions_def image_Un)
  next
    case (Refused e)
    have "s \<in> set (map snd (subscriptions c'))"
      using entries_members [OF sa] Refused reg by (simp add: getSubscriptions_def)
    then have "subs_get (sub_id s) (subscriptions c') = Some s"
      using dist' by (rule subs_get_member [rotated])
    then show ?thesis
      using Refused by simp
  qed
  have "set (map logical (getSubscriptions c')) = set (map logical ?ss)"
    and "length (getSubscriptions c') = length ?ss"
    using reg logical_entries [OF len] length_entries [OF len] by simp_all
  with pass reg each show ?thesis
    by blast
qed

lemma example_reconnected_facts:
  "reconnected example_reconnected"
  "subscriptions example_reconnected =
     [(0, \<lparr>sub_id = Str ''0xabc'', sub_type = newHeads, params = [], callback = Fn 7 False\<rparr>)]"
  by (simp_all add: example_reconnected_def example_subscribed_eq example_subscribing_eq
      example_open_eq example_client_eq reconnected_def fresh_ids_def registry_wf_def
      after_def socket_in_def set_readyState_def handleClose_def handleOpen_def
      scheduleReconnect_def connect_def ws_state_def newPromise_def buildWebSocketUrl_def
      log_def setTimeout_def clearTimeout_def emit_def settle_def deliver_def Let_def)

lemma replay_first_pass_example:
  "map_option getSubscriptions (replay_pass [Assigned (Str ''0xdef'')] example_reconnected) =
   Some [\<lparr>sub_id = Str ''0xdef'', sub_type = newHeads, params = [], callback = Fn 7 False\<rparr>]"
proof -
  have "length [Assigned (Str ''0xdef'')] = length (subscriptions example_reconnected)"
    and "distinct (assigned_ids [Assigned (Str ''0xdef'')])"
    and "\<forall>v \<in> set (assigned_ids [Assigned (Str ''0xdef'')]).
           truthy v \<and> \<not> subs_has v (subscriptions example_reconnected)"
    by (simp_all add: example_reconnected_facts(2))
  from replay_first_pass [OF example_reconnected_facts(1) this]
  obtain c' where "replay_pass [Assigned (Str ''0xdef'')] example_reconnected = Some c'"
    and "getSubscriptions c' =
           kept_entries (getSubscriptions example_reconnected) [Assigned (Str ''0xdef'')]
           @ renamed_entries (getSubscriptions example_reconnected) [Assigned (Str ''0xdef'')]"
    by blast
  then show ?thesis
    by (simp add: getSubscriptions_def example_reconnected_facts(2))
qed

text \<open>
  Beyond the first pass: the iterator of the loop also visits the entries that the loop
  itself has appended. While the server answers with new ids, every round ends with a
  request of the loop in flight again, so the replay does not come to an end.
\<close>

lemma replay_goes_on:
  assumes "replay_at kept cur rest c" and "distinct vs"
    and "\<forall>v \<in> set vs. truthy v \<and> \<not> subs_has v (subscriptions c)"
  shows "\<exists>c' kept' cur' rest'.
           replay_rounds (map Assigned vs) c = Some c' \<and> replay_at kept' cur' rest' c'"
  using assms
proof (induction vs arbitrary: c kept cur rest)
  case Nil
  then show ?case by (simp del: split_paired_Ex) blast
next
  case (Cons v vs)
  let ?new = "(subscriptionSlots c, (snd cur)\<lparr>sub_id := v\<rparr>)"
  have subs: "subscriptions c = kept @ cur # rest"
    using Cons.prems(1) by (simp add: replay_at_def)
  have "truthy v" and "\<not> subs_has v (subscriptions c)"
    using Cons.prems(3) by simp_all
  with Cons.prems(1) obtain c1 where c1: "replay_round (Assigned v) c = Some c1"
    "subscriptions c1 = kept @ rest @ [?new]"
    "replay_at kept (hd (rest @ [?new])) (tl (rest @ [?new])) c1"
    using replay_round_assigned [of kept cur rest c v] by auto
  have "distinct vs" and "\<forall>w \<in> set vs. truthy w \<and> \<not> subs_has w (subscriptions c1)"
    using Cons.prems(2,3) subs c1(2) by auto
  with Cons.IH [OF c1(3)] obtain c' kept' cur' rest'
    where "replay_rounds (map Assigned vs) c1 = Some c'" and "replay_at kept' cur' rest' c'"
    by blast
  then show ?case
    using c1(1) by (simp del: split_paired_Ex) blast
qed

subsection \<open>Invariants of the reachable states\<close>

lemma delete_absent: "map_of al k = None \<Longrightarrow> AList.delete k al = al"
  by (induction al) (auto split: if_splits)

lemma promises_settle [simp]: "promises (settle p out c) = AList.delete p (promises c)"
  by (simp add: settle_def delete_absent split: option.splits)

lemma well_formed_fold:
  "(\<And>x c. well_formed c \<Longrightarrow> well_formed (f x c)) \<Longrightarrow> well_formed c \<Longrightarrow>
   well_formed (fold f xs c)"
  by (induction xs arbitrary: c) simp_all

lemmas well_formed_defs = well_formed_def registry_ok_def fresh_ids_def

lemmas well_formed_simps = list_all_delete list_all_less_Suc list_all_le_Suc

lemma well_formed_connect: "well_formed c \<Longrightarrow> well_formed (connect k c)"
  by (auto simp add: well_formed_defs well_formed_simps connect_def newPromise_def
      setInterval_def setTimeout_def Let_def)

lemma well_formed_subscribe_request:
  "well_formed c \<Longrightarrow> well_formed (subscribe_request k ty ps cb c)"
  by (auto simp add: well_formed_defs well_formed_simps subscribe_request_def
      generateRequestId_def newPromise_def setTimeout_def sendRequest_def Let_def
      split: option.splits)

lemma well_formed_subscribe: "well_formed c \<Longrightarrow> well_formed (subscribe k ty ps cb c)"
  by (simp add: subscribe_def well_formed_connect well_formed_subscribe_request)

lemma list_all_filter: "list_all P xs \<Longrightarrow> list_all P (filter Q xs)"
  by (induction xs) auto

lemma well_formed_unsubscribe: "well_formed c \<Longrightarrow> well_formed (unsubscribe k i c)"
  by (auto simp add: well_formed_defs well_formed_simps unsubscribe_def subs_delete_def
      list_all_filter generateRequestId_def newPromise_def setTimeout_def sendRequest_def
      Let_def split: option.splits)

lemma well_formed_disconnect_finish: "well_formed c \<Longrightarrow> well_formed (disconnect_finish p c)"
  by (auto simp add: well_formed_defs well_formed_simps disconnect_finish_def ws_close_def
      set_readyState_def Let_def split: option.splits)

lemma well_formed_disconnect: "well_formed c \<Longrightarrow> well_formed (disconnect k c)"
proof -
  assume w: "well_formed c"
  let ?c2 = "case reconnectTimeoutId (c\<lparr>isManualClose := True\<rparr>) of
               None \<Rightarrow> c\<lparr>isManualClose := True\<rparr>
             | Some t \<Rightarrow> (clearTimeout t (c\<lparr>isManualClose := True\<rparr>))\<lparr>reconnectTimeoutId := None\<rparr>"
  let ?c3 = "snd (newPromise k ?c2)"
  let ?ids = "map (\<lambda>e. sub_id (snd e)) (subscriptions ?c3)"
  let ?c4 = "fold (\<lambda>subscriptionId. unsubscribe (AllSettledItem (fst (newPromise k ?c2))) subscriptionId)
               ?ids ?c3"
  have "well_formed ?c3"
    using w
    by (auto simp add: well_formed_defs well_formed_simps newPromise_def Let_def
        split: option.splits)
  then have "well_formed ?c4"
    by (rule well_formed_fold [rotated]) (rule well_formed_unsubscribe)
  moreover have "well_formed (disconnect k c) = well_formed ?c4"
    by (simp add: well_formed_defs disconnect_def Let_def split_def)
  ultimately show ?thesis
    by simp
qed

lemma subs_set_frame [simp]:
  "promises (subs_set s c) = promises c"
  "promiseCounter (subs_set s c) = promiseCounter c"
  "timers (subs_set s c) = timers c"
  "timerCounter (subs_set s c) = timerCounter c"
  by (simp_all add: subs_set_def)

lemma registry_ok_subs_set:
  "truthy (sub_id s) \<Longrightarrow> list_all (\<lambda>e. truthy (sub_id (snd e))) (subscriptions c) \<Longrightarrow>
   list_all (\<lambda>e. truthy (sub_id (snd e))) (subscriptions (subs_set s c))"
  by (auto simp add: subs_set_def list_all_iff)

lemma well_formed_pending_resolve:
  "well_formed c \<Longrightarrow> well_formed (pending_resolve pending m c)"
  by (cases pending)
    (auto simp add: well_formed_defs well_formed_simps registry_ok_subs_set subs_delete_def
      list_all_filter Let_def split: option.splits)

lemma well_formed_pending_reject:
  "well_formed c \<Longrightarrow> well_formed (pending_reject pending e c)"
  by (cases pending) (auto simp add: well_formed_defs well_formed_simps)

lemma well_formed_handleMessage: "well_formed c \<Longrightarrow> well_formed (handleMessage d c)"
proof (cases d)
  case Unparseable
  then show "well_formed c \<Longrightarrow> ?thesis"
    by (simp add: handleMessage_def handleMessage_catch_def well_formed_defs)
next
  case ParsedNull
  then show "well_formed c \<Longrightarrow> ?thesis"
    by (simp add: handleMessage_def handleMessage_catch_def well_formed_defs)
next
  case (Parsed m)
  assume w: "well_formed c"
  have "well_formed (pending_resolve pending m
          ((log ''Received message:'' c)
             \<lparr>pendingRequests := AList.delete (msg_id m) (pendingRequests (log ''Received message:'' c))\<rparr>))"
    for pending
    using w by (intro well_formed_pending_resolve) (simp add: well_formed_defs)
  then show ?thesis
    using Parsed w
    by (auto simp add: handleMessage_def handleMessage_catch_def Let_def split: option.splits)
      (simp_all add: well_formed_defs)
qed

lemma well_formed_replay_next: "well_formed c \<Longrightarrow> well_formed (replay_next idx c)"
  by (simp add: replay_next_def well_formed_subscribe split: option.splits prod.splits)

lemma well_formed_handleOpen: "well_formed c \<Longrightarrow> well_formed (handleOpen s c)"
  by (simp add: well_formed_defs well_formed_simps handleOpen_def Let_def)

lemma well_formed_handleError: "well_formed c \<Longrightarrow> well_formed (handleError s c)"
  by (simp add: well_formed_defs well_formed_simps handleError_def Let_def)

lemma well_formed_scheduleReconnect: "well_formed c \<Longrightarrow> well_formed (scheduleReconnect c)"
  by (simp add: well_formed_defs well_formed_simps scheduleReconnect_def setTimeout_def Let_def)

lemma well_formed_reject_pending: "well_formed c \<Longrightarrow> well_formed (reject_pending entry c)"
proof -
  assume "well_formed c"
  then have "well_formed (clearTimeout (timeoutId (snd entry)) c)"
    by (simp add: well_formed_defs well_formed_simps)
  then have "well_formed (pending_reject (snd entry) (Error ''WebSocket connection closed'')
                            (clearTimeout (timeoutId (snd entry)) c))"
    by (rule well_formed_pending_reject)
  moreover have "well_formed (reject_pending entry c) =
      well_formed (pending_reject (snd entry) (Error ''WebSocket connection closed'')
                     (clearTimeout (timeoutId (snd entry)) c))"
    by (simp add: reject_pending_def Let_def well_formed_defs)
  ultimately show ?thesis
    by simp
qed

lemma well_formed_handleClose: "well_formed c \<Longrightarrow> well_formed (handleClose s code reason c)"
proof -
  assume w: "well_formed c"
  let ?closeCode = "case code of Num n \<Rightarrow> Num n | _ \<Rightarrow> Num 1000"
  let ?closeReason = "case reason of ReasonString r \<Rightarrow> r | ReasonBuffer r \<Rightarrow> r | NoReason \<Rightarrow> []"
  let ?c3 = "emit (OnClose ?closeCode ?closeReason)
               (log ''WebSocket closed'' (clearTimeout (connectionTimeout (sockets c ! s)) c))"
  let ?c4 = "fold reject_pending (pendingRequests ?c3) ?c3"
  have "well_formed ?c3"
    using w by (simp add: well_formed_defs well_formed_simps)
  then have c4: "well_formed ?c4"
    by (rule well_formed_fold [rotated]) (rule well_formed_reject_pending)
  then have "well_formed (scheduleReconnect ?c4)"
    by (rule well_formed_scheduleReconnect)
  then show ?thesis
    using c4 by (simp add: handleClose_def Let_def)
qed

lemma well_formed_fire: "well_formed c \<Longrightarrow> well_formed (fire t a c)"
proof (cases a)
  case ReconnectTimeout
  assume "well_formed c"
  then have "well_formed (c\<lparr>isManualClose := False\<rparr>)"
    by (simp add: well_formed_defs)
  then show ?thesis
    using ReconnectTimeout by (simp add: well_formed_connect)
qed (auto simp add: well_formed_defs well_formed_simps ws_close_def set_readyState_def Let_def
    split: option.splits)

lemma well_formed_resume: "well_formed c \<Longrightarrow> well_formed (resume k out c)"
proof (cases k)
  case (Caller n)
  then show "well_formed c \<Longrightarrow> ?thesis"
    by (cases out) (simp_all add: well_formed_defs)
next
  case (SubscribeAwaitConnect ty ps cb k')
  then show "well_formed c \<Longrightarrow> ?thesis"
    by (cases out) (simp_all add: well_formed_subscribe_request, simp add: well_formed_defs)
next
  case ReconnectAwaitConnect
  assume w: "well_formed c"
  then have "well_formed (log ''Reconnect failed:'' c)"
    by (simp add: well_formed_defs)
  then have "well_formed (scheduleReconnect (log ''Reconnect failed:'' c))"
    by (rule well_formed_scheduleReconnect)
  then show ?thesis
    using ReconnectAwaitConnect w by (cases out) (simp_all add: well_formed_replay_next)
next
  case (ReplayAwaitSubscribe i idx)
  assume w: "well_formed c"
  then have "well_formed (c\<lparr>subscriptions := subs_delete i (subscriptions c)\<rparr>)"
    and "well_formed (log ''Failed to resubscribe'' c)"
    by (simp_all add: well_formed_defs subs_delete_def list_all_filter)
  then show ?thesis
    using ReplayAwaitSubscribe by (cases out) (simp_all add: well_formed_replay_next)
next
  case (AllSettledItem p)
  then show "well_formed c \<Longrightarrow> ?thesis"
    by (simp add: well_formed_defs split: option.splits)
next
  case (DisconnectAwait p)
  then show "well_formed c \<Longrightarrow> ?thesis"
    by (simp add: well_formed_disconnect_finish)
qed

lemma well_formed_set_readyState: "well_formed c \<Longrightarrow> well_formed (set_readyState s r c)"
  by (simp add: well_formed_defs set_readyState_def)

lemma well_formed_step:
  assumes "well_formed c" and "step e c = Some c'"
  shows "well_formed c'"
proof (cases e)
  case (Connect n)
  then show ?thesis using assms by (auto simp add: well_formed_connect)
next
  case (Disconnect n)
  then show ?thesis using assms by (auto simp add: well_formed_disconnect)
next
  case (Subscribe n ty ps cb)
  then show ?thesis using assms by (auto simp add: well_formed_subscribe)
next
  case (Unsubscribe n i)
  then show ?thesis using assms by (auto simp add: well_formed_unsubscribe)
next
  case (On ev l)
  then show ?thesis using assms by (auto simp add: on_def well_formed_defs)
next
  case (Off ev l)
  then show ?thesis using assms by (auto simp add: off_def well_formed_defs)
next
  case (WsOpen s)
  then show ?thesis
    using assms
    by (auto simp add: well_formed_handleOpen well_formed_set_readyState split: if_splits)
next
  case (WsMessage s d)
  then show ?thesis
    using assms by (auto simp add: well_formed_handleMessage split: if_splits)
next
  case (WsError s)
  then show ?thesis
    using assms
    by (auto simp add: well_formed_handleError well_formed_set_readyState split: if_splits)
next
  case (WsClose s code reason)
  then show ?thesis
    using assms
    by (auto simp add: well_formed_handleClose well_formed_set_readyState split: if_splits)
next
  case (Timer t)
  have "well_formed (clearTimeout t c)"
    using assms(1) by (simp add: well_formed_defs well_formed_simps)
  then show ?thesis
    using assms Timer by (auto simp add: well_formed_fire split: option.splits if_splits)
next
  case Microtask
  have "well_formed (c\<lparr>microtasks := rest\<rparr>)" for rest
    using assms(1) by (simp add: well_formed_defs)
  then show ?thesis
    using assms Microtask by (auto simp add: well_formed_resume split: list.splits)
qed

lemma well_formed_run: "well_formed c \<Longrightarrow> run es c = Some c' \<Longrightarrow> well_formed c'"
proof (induction es arbitrary: c)
  case Nil
  then show ?case by simp
next
  case (Cons e es)
  then obtain c1 where "step e c = Some c1" and "run es c1 = Some c'"
    by (auto split: option.splits)
  then show ?case
    using Cons.prems(1) Cons.IH well_formed_step by blast
qed

text \<open>
  Every state a constructed client reaches has truthy registry keys and ids handed out by
  the counters, which are the assumptions of the theorems on requests and pushes above.
\<close>

lemma reachable_well_formed:
  assumes "constructor opts rt = Inr c0" and "run es c0 = Some c"
  shows "registry_ok c" and "fresh_ids c"
proof -
  have "c0 = projr (constructor opts rt)"
    using assms(1) by simp
  then have "well_formed c0"
    using assms(1) by (simp add: constructor_def well_formed_defs split: if_splits)
  then have "well_formed c"
    using assms(2) by (rule well_formed_run)
  then show "registry_ok c" and "fresh_ids c"
    by (simp_all add: well_formed_def)
qed

end
